theory Spec2Isabelle
  imports Main "HOL-Library.Word"
begin

section \<open>The Chalk object model (apps/lib/chalk/obj.c)\<close>

subsection \<open>Ways a call can fail to return\<close>

text \<open>
  A call of the C code either returns, or it does not: an \<open>assert\<close> fails (the asserts
  are modelled as checked, the debug build), memory that is not a live allocation is
  read or written (a NULL or dangling pointer, an index outside a buffer), or the
  recursion is deeper than the stack allows. A function of the model that can fail in
  one of these ways returns \<open>crash + 'a\<close>, with \<open>Inl\<close> for the failure.
  Status codes of the C functions (\<open>ENOMEM\<close>, \<open>EINVAL\<close>, \<open>ERANGE\<close>) are ordinary
  return values.
\<close>

datatype crash = AssertionFailure | MemoryFault | DepthExceeded

text \<open>The status codes of \<open>errno.h\<close> that obj.c returns (their POSIX values).\<close>

definition ENOMEM :: int where "ENOMEM = 12"
definition EINVAL :: int where "EINVAL = 22"
definition ERANGE :: int where "ERANGE = 34"

subsection \<open>Objects\<close>

text \<open>
  Modelled from the spec: the declarations of chalkp.h are not part of the sources at
  hand. The object kinds are enumerated in the order of \<open>ChalkObjectTypeNames\<close> in
  obj.c (\<open>INVALID\<close>, \<open>null\<close>, \<open>integer\<close>, \<open>string\<close>, \<open>dict\<close>, \<open>list\<close>,
  \<open>function\<close>); the fields of each kind are the ones obj.c reads and writes.
  \<open>ULONG\<close> is a 32-bit unsigned integer, \<open>LONGLONG\<close> a 64-bit signed one, and
  \<open>UINTN\<close> is 32 bits wide as in include/minoca/uefi/arm/procdef.h.
\<close>

datatype CHALK_OBJECT_TYPE =
    ChalkObjectInvalid
  | ChalkObjectNull
  | ChalkObjectInteger
  | ChalkObjectString
  | ChalkObjectDict
  | ChalkObjectList
  | ChalkObjectFunction

fun TypeValue :: "CHALK_OBJECT_TYPE \<Rightarrow> nat" where
  "TypeValue ChalkObjectInvalid = 0"
| "TypeValue ChalkObjectNull = 1"
| "TypeValue ChalkObjectInteger = 2"
| "TypeValue ChalkObjectString = 3"
| "TypeValue ChalkObjectDict = 4"
| "TypeValue ChalkObjectList = 5"
| "TypeValue ChalkObjectFunction = 6"

text \<open>
  A pointer to an object is an address, or NULL (\<open>None\<close>). Addresses are natural
  numbers; they are what the C code compares when it casts a pointer to \<open>UINTN\<close>.
\<close>

type_synonym PCHALK_OBJECT = "nat option"

record CHALK_DICT_ENTRY =
  Key :: PCHALK_OBJECT
  Value :: PCHALK_OBJECT

text \<open>
  The entries of a dictionary are kept in list order; \<open>INSERT_BEFORE\<close> the list head
  appends at the end. An entry is never unlinked while its dictionary lives, so a
  pointer to an entry is its position in the list.
\<close>

record CHALK_DICT =
  EntryList :: "CHALK_DICT_ENTRY list"
  Count :: "32 word"
  Generation :: "32 word"

text \<open>
  The union of the kinds' fields. A string owns its buffer (the bytes of the allocation,
  terminator included) and keeps \<open>Size\<close> beside it; a list owns its array of slots
  and its \<open>Count\<close> is the number of slots of the array; a function holds its argument
  list and two opaque handles (body, script).
\<close>

datatype CHALK_UNION =
    CHALK_NULL
  | CHALK_INT "64 word"
  | CHALK_STRING "8 word list" "32 word"
  | CHALK_LIST "PCHALK_OBJECT list"
  | CHALK_DICT_OBJECT CHALK_DICT
  | CHALK_FUNCTION PCHALK_OBJECT nat nat

record CHALK_OBJECT =
  ReferenceCount :: "32 word"
  Payload :: CHALK_UNION

text \<open>
  \<open>Header.Type\<close>. Only \<open>ChalkGutObject\<close> writes \<open>ChalkObjectInvalid\<close>, and the
  object is freed right after, so a live object carries the kind of its payload.
\<close>

fun PayloadType :: "CHALK_UNION \<Rightarrow> CHALK_OBJECT_TYPE" where
  "PayloadType CHALK_NULL = ChalkObjectNull"
| "PayloadType (CHALK_INT v) = ChalkObjectInteger"
| "PayloadType (CHALK_STRING b n) = ChalkObjectString"
| "PayloadType (CHALK_LIST a) = ChalkObjectList"
| "PayloadType (CHALK_DICT_OBJECT d) = ChalkObjectDict"
| "PayloadType (CHALK_FUNCTION a b c) = ChalkObjectFunction"

definition HeaderType :: "CHALK_OBJECT \<Rightarrow> CHALK_OBJECT_TYPE" where
  "HeaderType Object = PayloadType (Payload Object)"

subsection \<open>Memory\<close>

text \<open>
  The heap holds the objects by address: slot \<open>a\<close> of \<open>Heap\<close> is the object at
  address \<open>a\<close>, or \<open>None\<close> once it is freed. Addresses are not reused.
  \<open>ChalkAllocate\<close> and \<open>ChalkReallocate\<close> may fail: \<open>Allocator\<close> is the script of
  the answers the allocator will give, the next one first (\<open>True\<close>: memory is granted);
  an exhausted script grants nothing.
\<close>

record chalk_state =
  Heap :: "CHALK_OBJECT option list"
  Allocator :: "bool list"

definition Deref :: "chalk_state \<Rightarrow> PCHALK_OBJECT \<Rightarrow> CHALK_OBJECT option" where
  "Deref s p =
     (case p of
        None \<Rightarrow> None
      | Some a \<Rightarrow> if a < length (Heap s) then Heap s ! a else None)"

definition ChalkAllocate :: "chalk_state \<Rightarrow> bool \<times> chalk_state" where
  "ChalkAllocate s =
     (case Allocator s of
        [] \<Rightarrow> (False, s)
      | b # bs \<Rightarrow> (b, s\<lparr>Allocator := bs\<rparr>))"

definition NewObject :: "CHALK_OBJECT option \<Rightarrow> chalk_state \<Rightarrow> nat \<times> chalk_state" where
  "NewObject Object s = (length (Heap s), s\<lparr>Heap := Heap s @ [Object]\<rparr>)"

definition StoreObject :: "nat \<Rightarrow> CHALK_OBJECT \<Rightarrow> chalk_state \<Rightarrow> chalk_state" where
  "StoreObject a Object s = s\<lparr>Heap := (Heap s)[a := Some Object]\<rparr>"

definition ChalkFree :: "nat \<Rightarrow> chalk_state \<Rightarrow> chalk_state" where
  "ChalkFree a s = s\<lparr>Heap := (Heap s)[a := None]\<rparr>"

text \<open>The one and only null object, a global of obj.c: it lives at address 0.\<close>

definition ChalkNull :: nat where "ChalkNull = 0"

definition InitialState :: "bool list \<Rightarrow> chalk_state" where
  "InitialState Script =
     \<lparr>Heap = [Some \<lparr>ReferenceCount = 1, Payload = CHALK_NULL\<rparr>], Allocator = Script\<rparr>"

subsection \<open>Reference counting\<close>

definition ChalkObjectAddReference :: "PCHALK_OBJECT \<Rightarrow> chalk_state \<Rightarrow> crash + chalk_state" where
  "ChalkObjectAddReference Object s =
     (case Object of
        None \<Rightarrow> Inl MemoryFault
      | Some a \<Rightarrow>
          (case Deref s Object of
             None \<Rightarrow> Inl MemoryFault
           | Some Header \<Rightarrow>
               if ReferenceCount Header \<noteq> 0 \<and> ReferenceCount Header < 0x10000000
               then Inr (StoreObject a
                      (Header\<lparr>ReferenceCount := ReferenceCount Header + 1\<rparr>) s)
               else Inl AssertionFailure))"

text \<open>The loop of \<open>ChalkCreateList\<close>: a reference to each slot that is not a hole.\<close>

fun AddReferences :: "PCHALK_OBJECT list \<Rightarrow> chalk_state \<Rightarrow> crash + chalk_state" where
  "AddReferences [] s = Inr s"
| "AddReferences (None # Array) s = AddReferences Array s"
| "AddReferences (Some a # Array) s =
     (case ChalkObjectAddReference (Some a) s of
        Inl e \<Rightarrow> Inl e
      | Inr s1 \<Rightarrow> AddReferences Array s1)"

text \<open>
  Releasing the last reference tears the object down, which releases what it owns:
  the recursion of \<open>ChalkObjectReleaseReference\<close> through \<open>ChalkGutObject\<close>,
  \<open>ChalkDestroyList\<close>, \<open>ChalkDestroyDict\<close> and \<open>ChalkDestroyDictEntry\<close>.
  \<open>Depth\<close> is the number of nested calls the stack can take.
  \<open>ReleaseSlots\<close> is the loop of \<open>ChalkDestroyList\<close>, \<open>ReleaseEntries\<close> the loop
  of \<open>ChalkDestroyDict\<close> with \<open>ChalkDestroyDictEntry\<close> in it; both take the release
  function of the next level. The object torn down has no reference left and is freed
  as soon as \<open>ChalkGutObject\<close> returns, so the writes into it on the way (the
  unlinking of the entries, the countdown of \<open>Count\<close>, the cleared fields, the kind
  set to \<open>ChalkObjectInvalid\<close>) are not stored; the assert that \<open>Count\<close> has
  reached 0 is checked against the number of entries unlinked.
\<close>

fun ReleaseSlots ::
  "(PCHALK_OBJECT \<Rightarrow> chalk_state \<Rightarrow> crash + chalk_state) \<Rightarrow>
   PCHALK_OBJECT list \<Rightarrow> chalk_state \<Rightarrow> crash + chalk_state" where
  "ReleaseSlots Release [] s = Inr s"
| "ReleaseSlots Release (None # Array) s = ReleaseSlots Release Array s"
| "ReleaseSlots Release (Some a # Array) s =
     (case Release (Some a) s of
        Inl e \<Rightarrow> Inl e
      | Inr s1 \<Rightarrow> ReleaseSlots Release Array s1)"

fun ReleaseEntries ::
  "(PCHALK_OBJECT \<Rightarrow> chalk_state \<Rightarrow> crash + chalk_state) \<Rightarrow>
   CHALK_DICT_ENTRY list \<Rightarrow> chalk_state \<Rightarrow> crash + chalk_state" where
  "ReleaseEntries Release [] s = Inr s"
| "ReleaseEntries Release (Entry # Entries) s =
     (case Release (Key Entry) s of
        Inl e \<Rightarrow> Inl e
      | Inr s1 \<Rightarrow>
          (case (if Value Entry \<noteq> None then Release (Value Entry) s1 else Inr s1) of
             Inl e \<Rightarrow> Inl e
           | Inr s2 \<Rightarrow> ReleaseEntries Release Entries s2))"

definition ChalkGutObject ::
  "(PCHALK_OBJECT \<Rightarrow> chalk_state \<Rightarrow> crash + chalk_state) \<Rightarrow>
   CHALK_OBJECT \<Rightarrow> chalk_state \<Rightarrow> crash + chalk_state" where
  "ChalkGutObject Release Object s =
     (case Payload Object of
        CHALK_NULL \<Rightarrow> Inl AssertionFailure
      | CHALK_INT v \<Rightarrow> Inr s
      | CHALK_STRING String Size \<Rightarrow> Inr s
      | CHALK_LIST Array \<Rightarrow> ReleaseSlots Release Array s
      | CHALK_DICT_OBJECT Dict \<Rightarrow>
          (case ReleaseEntries Release (EntryList Dict) s of
             Inl e \<Rightarrow> Inl e
           | Inr s1 \<Rightarrow>
               if Count Dict - of_nat (length (EntryList Dict)) = 0 then Inr s1
               else Inl AssertionFailure)
      | CHALK_FUNCTION Arguments Body Script \<Rightarrow>
          (if Arguments \<noteq> None then Release Arguments s else Inr s))"

primrec ChalkObjectReleaseReference ::
  "nat \<Rightarrow> PCHALK_OBJECT \<Rightarrow> chalk_state \<Rightarrow> crash + chalk_state" where
  "ChalkObjectReleaseReference 0 = (\<lambda>Object s. Inl DepthExceeded)"
| "ChalkObjectReleaseReference (Suc Depth) = (\<lambda>Object s.
     case Object of
       None \<Rightarrow> Inl MemoryFault
     | Some a \<Rightarrow>
         (case Deref s Object of
            None \<Rightarrow> Inl MemoryFault
          | Some Header \<Rightarrow>
              if ReferenceCount Header \<noteq> 0 \<and> ReferenceCount Header < 0x10000000
              then
                let Header1 = Header\<lparr>ReferenceCount := ReferenceCount Header - 1\<rparr>;
                    s1 = StoreObject a Header1 s
                in if ReferenceCount Header1 = 0
                   then (case ChalkGutObject (ChalkObjectReleaseReference Depth) Header1 s1 of
                           Inl e \<Rightarrow> Inl e
                         | Inr s2 \<Rightarrow> Inr (ChalkFree a s2))
                   else Inr s1
              else Inl AssertionFailure))"

subsection \<open>Scalars\<close>

definition ChalkCreateNull :: "chalk_state \<Rightarrow> crash + (PCHALK_OBJECT \<times> chalk_state)" where
  "ChalkCreateNull s =
     (case ChalkObjectAddReference (Some ChalkNull) s of
        Inl e \<Rightarrow> Inl e
      | Inr s1 \<Rightarrow> Inr (Some ChalkNull, s1))"

definition ChalkCreateInteger :: "64 word \<Rightarrow> chalk_state \<Rightarrow> PCHALK_OBJECT \<times> chalk_state" where
  "ChalkCreateInteger IntValue s =
     (case ChalkAllocate s of
        (False, s1) \<Rightarrow> (None, s1)
      | (True, s1) \<Rightarrow>
          (let (Integer, s2) =
                 NewObject (Some \<lparr>ReferenceCount = 1, Payload = CHALK_INT IntValue\<rparr>) s1
           in (Some Integer, s2)))"

text \<open>
  \<open>InitialValue\<close> is the caller's buffer (the bytes that can be read from the pointer),
  or NULL. \<open>AllocateSize = Size + 1\<close> is \<open>ULONG\<close> arithmetic. \<open>memcpy\<close> reads
  \<open>Size\<close> bytes of the source and writes them into the new buffer of
  \<open>AllocateSize\<close> bytes; it faults when either is shorter. When the buffer cannot be
  allocated the object allocated before it is freed again.
\<close>

definition ChalkCreateString ::
  "8 word list option \<Rightarrow> 32 word \<Rightarrow> chalk_state \<Rightarrow> crash + (PCHALK_OBJECT \<times> chalk_state)" where
  "ChalkCreateString InitialValue Size s =
     (case ChalkAllocate s of
        (False, s1) \<Rightarrow> Inr (None, s1)
      | (True, s1) \<Rightarrow>
          (let AllocateSize = Size + 1 in
           case ChalkAllocate s1 of
             (False, s2) \<Rightarrow> Inr (None, snd (NewObject None s2))
           | (True, s2) \<Rightarrow>
               (let Source = (case InitialValue of None \<Rightarrow> [] | Some Bytes \<Rightarrow> Bytes)
                in if unat Size \<le> length Source \<and> unat Size < unat AllocateSize
                   then
                     (let (String, s3) =
                            NewObject (Some \<lparr>ReferenceCount = 1,
                              Payload = CHALK_STRING (take (unat Size) Source @ [0]) Size\<rparr>) s2
                      in Inr (Some String, s3))
                   else Inl MemoryFault)))"

subsection \<open>Lists\<close>

text \<open>
  \<open>InitialValues\<close> is the caller's array of pointers, or NULL; \<open>memcpy\<close> faults when
  it has fewer than \<open>Size\<close> slots.
\<close>

definition ChalkCreateList ::
  "PCHALK_OBJECT list option \<Rightarrow> 32 word \<Rightarrow> chalk_state \<Rightarrow>
   crash + (PCHALK_OBJECT \<times> chalk_state)" where
  "ChalkCreateList InitialValues Size s =
     (case ChalkAllocate s of
        (False, s1) \<Rightarrow> Inr (None, s1)
      | (True, s1) \<Rightarrow>
          if Size \<noteq> 0 then
            (case ChalkAllocate s1 of
               (False, s2) \<Rightarrow> Inr (None, snd (NewObject None s2))
             | (True, s2) \<Rightarrow>
                 (case InitialValues of
                    Some Values \<Rightarrow>
                      if unat Size \<le> length Values then
                        (let Array = take (unat Size) Values;
                             (List, s3) = NewObject (Some \<lparr>ReferenceCount = 1,
                                            Payload = CHALK_LIST Array\<rparr>) s2
                         in case AddReferences Array s3 of
                              Inl e \<Rightarrow> Inl e
                            | Inr s4 \<Rightarrow> Inr (Some List, s4))
                      else Inl MemoryFault
                  | None \<Rightarrow>
                      (let (List, s3) = NewObject (Some \<lparr>ReferenceCount = 1,
                                          Payload = CHALK_LIST (replicate (unat Size) None)\<rparr>) s2
                       in Inr (Some List, s3))))
          else
            (let (List, s2) =
                   NewObject (Some \<lparr>ReferenceCount = 1, Payload = CHALK_LIST []\<rparr>) s1
             in Inr (Some List, s2)))"

definition ChalkListLookup ::
  "PCHALK_OBJECT \<Rightarrow> 32 word \<Rightarrow> chalk_state \<Rightarrow> crash + (PCHALK_OBJECT \<times> chalk_state)" where
  "ChalkListLookup List Index s =
     (case Deref s List of
        None \<Rightarrow> Inl MemoryFault
      | Some Header \<Rightarrow>
          (case Payload Header of
             CHALK_LIST Array \<Rightarrow>
               if unat Index \<ge> length Array then Inr (None, s)
               else
                 (let Object = Array ! unat Index
                  in if Object \<noteq> None
                     then (case ChalkObjectAddReference Object s of
                             Inl e \<Rightarrow> Inl e
                           | Inr s1 \<Rightarrow> Inr (Object, s1))
                     else Inr (Object, s))
           | _ \<Rightarrow> Inl AssertionFailure))"

text \<open>
  The array of a list object in the heap, and the write of one of its slots; both
  fault on a pointer that is not a live list and on a slot outside the array.
\<close>

definition ListArray :: "chalk_state \<Rightarrow> PCHALK_OBJECT \<Rightarrow> crash + PCHALK_OBJECT list" where
  "ListArray s List =
     (case Deref s List of
        None \<Rightarrow> Inl MemoryFault
      | Some Header \<Rightarrow>
          (case Payload Header of
             CHALK_LIST Array \<Rightarrow> Inr Array
           | _ \<Rightarrow> Inl MemoryFault))"

definition SetArray :: "nat \<Rightarrow> PCHALK_OBJECT list \<Rightarrow> chalk_state \<Rightarrow> crash + chalk_state" where
  "SetArray a Array s =
     (case Deref s (Some a) of
        None \<Rightarrow> Inl MemoryFault
      | Some Header \<Rightarrow> Inr (StoreObject a (Header\<lparr>Payload := CHALK_LIST Array\<rparr>) s))"

text \<open>
  The first half of \<open>ChalkListSetElement\<close>: when \<open>Count <= Index\<close> the array is
  reallocated to \<open>Index + 1\<close> slots and the slots from \<open>Count\<close> on, \<open>Index + 1 - Count\<close>
  of them, are zeroed by \<open>memset\<close>. Both expressions are \<open>ULONG\<close> arithmetic; the
  \<open>memset\<close> faults when it runs past the new buffer. The result is the status and
  the state.
\<close>

definition ChalkListGrow ::
  "nat \<Rightarrow> PCHALK_OBJECT list \<Rightarrow> 32 word \<Rightarrow> chalk_state \<Rightarrow> crash + (int \<times> chalk_state)" where
  "ChalkListGrow a Array Index s =
     (if length Array \<le> unat Index then
        (case ChalkAllocate s of
           (False, s1) \<Rightarrow> Inr (ENOMEM, s1)
         | (True, s1) \<Rightarrow>
             (let NewCount = unat (Index + 1);
                  Gap = unat (Index + 1 - of_nat (length Array))
              in if length Array + Gap \<le> NewCount
                 then (case SetArray a (take NewCount (Array @ replicate Gap None)) s1 of
                         Inl e \<Rightarrow> Inl e
                       | Inr s2 \<Rightarrow> Inr (0, s2))
                 else Inl MemoryFault))
      else Inr (0, s))"

definition ChalkListSetElement ::
  "nat \<Rightarrow> PCHALK_OBJECT \<Rightarrow> 32 word \<Rightarrow> PCHALK_OBJECT \<Rightarrow> chalk_state \<Rightarrow>
   crash + (int \<times> chalk_state)" where
  "ChalkListSetElement Depth ListObject Index Object s =
     (case ListObject of
        None \<Rightarrow> Inl MemoryFault
      | Some a \<Rightarrow>
     (case Deref s ListObject of
        None \<Rightarrow> Inl MemoryFault
      | Some Header \<Rightarrow>
          (case Payload Header of
             CHALK_LIST Array \<Rightarrow>
               (case ChalkListGrow a Array Index s of
                  Inl e \<Rightarrow> Inl e
                | Inr (Status, s1) \<Rightarrow>
                    if Status \<noteq> 0 then Inr (Status, s1)
                    else
                      (case ListArray s1 ListObject of
                         Inl e \<Rightarrow> Inl e
                       | Inr Array1 \<Rightarrow>
                           if unat Index \<ge> length Array1 then Inl MemoryFault
                           else
                             (case (if Array1 ! unat Index \<noteq> None
                                    then ChalkObjectReleaseReference Depth
                                           (Array1 ! unat Index) s1
                                    else Inr s1) of
                                Inl e \<Rightarrow> Inl e
                              | Inr s2 \<Rightarrow>
                                  (case ListArray s2 ListObject of
                                     Inl e \<Rightarrow> Inl e
                                   | Inr Array2 \<Rightarrow>
                                       (case SetArray a (Array2[unat Index := Object]) s2 of
                                          Inl e \<Rightarrow> Inl e
                                        | Inr s3 \<Rightarrow>
                                            if Object \<noteq> None
                                            then (case ChalkObjectAddReference Object s3 of
                                                    Inl e \<Rightarrow> Inl e
                                                  | Inr s4 \<Rightarrow> Inr (0, s4))
                                            else Inr (0, s3))))))
           | _ \<Rightarrow> Inl AssertionFailure)))"

subsection \<open>Comparison\<close>

text \<open>
  \<open>strcmp\<close> of the C library on two buffers: the difference of the first pair of bytes
  that differ, read as \<open>unsigned char\<close>, or 0 when the terminator is reached first;
  \<open>None\<close> when it runs off a buffer that has no terminator. \<open>strlen\<close> is the number
  of bytes before the first zero byte.
\<close>

fun strcmp :: "8 word list \<Rightarrow> 8 word list \<Rightarrow> int option" where
  "strcmp (x # xs) (y # ys) =
     (if x \<noteq> y then Some (int (unat x) - int (unat y))
      else if x = 0 then Some 0
      else strcmp xs ys)"
| "strcmp xs ys = None"

definition strlen :: "8 word list \<Rightarrow> nat option" where
  "strlen String =
     (if 0 \<in> set String then Some (length (takeWhile (\<lambda>c. c \<noteq> 0) String)) else None)"

text \<open>
  The loop of the list case of \<open>ChalkCompareObjects\<close>: the elements are compared in
  order until a result is not 0. \<open>Compare\<close> is the comparison of the next level. The
  loop runs over the slots of the left array and reads the same slot of the right one.
\<close>

fun CompareElements ::
  "(PCHALK_OBJECT \<Rightarrow> PCHALK_OBJECT \<Rightarrow> crash + int) \<Rightarrow>
   PCHALK_OBJECT list \<Rightarrow> PCHALK_OBJECT list \<Rightarrow> crash + int" where
  "CompareElements Compare [] RightArray = Inr 0"
| "CompareElements Compare (l # LeftArray) [] = Inl MemoryFault"
| "CompareElements Compare (l # LeftArray) (r # RightArray) =
     (case Compare l r of
        Inl e \<Rightarrow> Inl e
      | Inr Result \<Rightarrow>
          if Result \<noteq> 0 then Inr Result
          else CompareElements Compare LeftArray RightArray)"

primrec ChalkCompareObjects ::
  "nat \<Rightarrow> chalk_state \<Rightarrow> PCHALK_OBJECT \<Rightarrow> PCHALK_OBJECT \<Rightarrow> crash + int" where
  "ChalkCompareObjects 0 s = (\<lambda>LeftObject RightObject. Inl DepthExceeded)"
| "ChalkCompareObjects (Suc Depth) s = (\<lambda>LeftObject RightObject.
     case (Deref s LeftObject, Deref s RightObject) of
       (Some l, Some r) \<Rightarrow>
         if HeaderType l \<noteq> HeaderType r then
           (if TypeValue (HeaderType l) < TypeValue (HeaderType r) then Inr (- 1) else Inr 1)
         else
           (case (Payload l, Payload r) of
              (CHALK_NULL, CHALK_NULL) \<Rightarrow> Inr 0
            | (CHALK_INT LeftValue, CHALK_INT RightValue) \<Rightarrow>
                if sint LeftValue < sint RightValue then Inr (- 1)
                else if sint LeftValue > sint RightValue then Inr 1
                else Inr 0
            | (CHALK_STRING LeftString LeftSize, CHALK_STRING RightString RightSize) \<Rightarrow>
                (case strcmp LeftString RightString of
                   None \<Rightarrow> Inl MemoryFault
                 | Some Result \<Rightarrow>
                     if Result < 0 then Inr (- 1)
                     else if Result > 0 then Inr 1
                     else Inr Result)
            | (CHALK_LIST LeftArray, CHALK_LIST RightArray) \<Rightarrow>
                if length LeftArray < length RightArray then Inr (- 1)
                else if length LeftArray > length RightArray then Inr 1
                else CompareElements (ChalkCompareObjects Depth s) LeftArray RightArray
            | _ \<Rightarrow>
                if the LeftObject < the RightObject then Inr (- 1)
                else if the LeftObject > the RightObject then Inr 1
                else Inr 0)
     | _ \<Rightarrow> Inl MemoryFault)"

subsection \<open>Dictionaries\<close>

text \<open>
  The loop of \<open>ChalkDictLookup\<close>: the first entry whose key compares equal, by its
  position, or \<open>None\<close> when there is none. \<open>Compare\<close> compares an entry's key with
  the key looked for.
\<close>

fun FindEntry ::
  "(PCHALK_OBJECT \<Rightarrow> crash + int) \<Rightarrow> CHALK_DICT_ENTRY list \<Rightarrow> nat \<Rightarrow> crash + nat option" where
  "FindEntry Compare [] Position = Inr None"
| "FindEntry Compare (Entry # Entries) Position =
     (case Compare (Key Entry) of
        Inl e \<Rightarrow> Inl e
      | Inr Result \<Rightarrow>
          if Result = 0 then Inr (Some Position)
          else FindEntry Compare Entries (Suc Position))"

definition ChalkDictLookup ::
  "nat \<Rightarrow> PCHALK_OBJECT \<Rightarrow> PCHALK_OBJECT \<Rightarrow> chalk_state \<Rightarrow> crash + nat option" where
  "ChalkDictLookup Depth DictObject KeyObject s =
     (case Deref s DictObject of
        None \<Rightarrow> Inl MemoryFault
      | Some Header \<Rightarrow>
          (case Payload Header of
             CHALK_DICT_OBJECT Dict \<Rightarrow>
               FindEntry (\<lambda>EntryKey. ChalkCompareObjects Depth s EntryKey KeyObject)
                 (EntryList Dict) 0
           | _ \<Rightarrow> Inl AssertionFailure))"

text \<open>
  The dictionary fields of the object at an address, and a write to them; both fault on
  a pointer that is not a live dictionary.
\<close>

definition DictFields :: "chalk_state \<Rightarrow> PCHALK_OBJECT \<Rightarrow> crash + CHALK_DICT" where
  "DictFields s DictObject =
     (case Deref s DictObject of
        None \<Rightarrow> Inl MemoryFault
      | Some Header \<Rightarrow>
          (case Payload Header of
             CHALK_DICT_OBJECT Dict \<Rightarrow> Inr Dict
           | _ \<Rightarrow> Inl MemoryFault))"

definition SetDictFields :: "nat \<Rightarrow> CHALK_DICT \<Rightarrow> chalk_state \<Rightarrow> crash + chalk_state" where
  "SetDictFields d Dict s =
     (case Deref s (Some d) of
        None \<Rightarrow> Inl MemoryFault
      | Some Header \<Rightarrow> Inr (StoreObject d (Header\<lparr>Payload := CHALK_DICT_OBJECT Dict\<rparr>) s))"

text \<open>
  The branch of \<open>ChalkDictSetElement\<close> for a key that has no entry: a new entry is
  allocated, takes the key with a reference, and is linked at the end; \<open>Generation\<close>
  and \<open>Count\<close> go up by one. The result is the entry (\<open>None\<close> when the allocation
  failed) and the state.
\<close>

definition ChalkDictNewEntry ::
  "nat \<Rightarrow> PCHALK_OBJECT \<Rightarrow> chalk_state \<Rightarrow> crash + (nat option \<times> chalk_state)" where
  "ChalkDictNewEntry d KeyObject s =
     (case ChalkAllocate s of
        (False, s1) \<Rightarrow> Inr (None, s1)
      | (True, s1) \<Rightarrow>
          (case ChalkObjectAddReference KeyObject s1 of
             Inl e \<Rightarrow> Inl e
           | Inr s2 \<Rightarrow>
               (case DictFields s2 (Some d) of
                  Inl e \<Rightarrow> Inl e
                | Inr Dict \<Rightarrow>
                    (case SetDictFields d
                            (Dict\<lparr>EntryList := EntryList Dict @ [\<lparr>Key = KeyObject, Value = None\<rparr>],
                                  Generation := Generation Dict + 1,
                                  Count := Count Dict + 1\<rparr>) s2 of
                       Inl e \<Rightarrow> Inl e
                     | Inr s3 \<Rightarrow> Inr (Some (length (EntryList Dict)), s3)))))"

text \<open>
  The end of \<open>ChalkDictSetElement\<close>, for the entry found or made: the value takes a
  reference, the value the entry held is released, and the entry takes the new value.
\<close>

definition ChalkDictStoreValue ::
  "nat \<Rightarrow> nat \<Rightarrow> nat \<Rightarrow> PCHALK_OBJECT \<Rightarrow> chalk_state \<Rightarrow> crash + chalk_state" where
  "ChalkDictStoreValue Depth d Entry ValueObject s =
     (case ChalkObjectAddReference ValueObject s of
        Inl e \<Rightarrow> Inl e
      | Inr s1 \<Rightarrow>
          (case DictFields s1 (Some d) of
             Inl e \<Rightarrow> Inl e
           | Inr Dict1 \<Rightarrow>
               if Entry \<ge> length (EntryList Dict1) then Inl MemoryFault
               else
                 (case (if Value (EntryList Dict1 ! Entry) \<noteq> None
                        then ChalkObjectReleaseReference Depth
                               (Value (EntryList Dict1 ! Entry)) s1
                        else Inr s1) of
                    Inl e \<Rightarrow> Inl e
                  | Inr s2 \<Rightarrow>
                      (case DictFields s2 (Some d) of
                         Inl e \<Rightarrow> Inl e
                       | Inr Dict2 \<Rightarrow>
                           if Entry \<ge> length (EntryList Dict2) then Inl MemoryFault
                           else SetDictFields d
                                  (Dict2\<lparr>EntryList := (EntryList Dict2)
                                     [Entry := (EntryList Dict2 ! Entry)\<lparr>Value := ValueObject\<rparr>]\<rparr>)
                                  s2))))"

text \<open>
  \<open>ChalkDictSetElement\<close> returns the status, the entry whose value slot \<open>LValue\<close>
  receives (\<open>None\<close> when nothing is stored there), and the state. The message on
  \<open>stderr\<close> is not modelled.
\<close>

definition ChalkDictSetElement ::
  "nat \<Rightarrow> PCHALK_OBJECT \<Rightarrow> PCHALK_OBJECT \<Rightarrow> PCHALK_OBJECT \<Rightarrow> chalk_state \<Rightarrow>
   crash + (int \<times> nat option \<times> chalk_state)" where
  "ChalkDictSetElement Depth DictObject KeyObject ValueObject s =
     (case DictObject of
        None \<Rightarrow> Inl MemoryFault
      | Some d \<Rightarrow>
     (case Deref s DictObject of
        None \<Rightarrow> Inl MemoryFault
      | Some Header \<Rightarrow>
          if HeaderType Header \<noteq> ChalkObjectDict then Inl AssertionFailure
          else if KeyObject = None then Inl AssertionFailure
          else
            (case Deref s KeyObject of
               None \<Rightarrow> Inl MemoryFault
             | Some KeyHeader \<Rightarrow>
                 if HeaderType KeyHeader \<noteq> ChalkObjectInteger \<and>
                    HeaderType KeyHeader \<noteq> ChalkObjectString
                 then Inr (EINVAL, None, s)
                 else
                   (case ChalkDictLookup Depth DictObject KeyObject s of
                      Inl e \<Rightarrow> Inl e
                    | Inr Found \<Rightarrow>
                        (case (case Found of
                                 None \<Rightarrow> ChalkDictNewEntry d KeyObject s
                               | Some Entry \<Rightarrow> Inr (Some Entry, s)) of
                           Inl e \<Rightarrow> Inl e
                         | Inr (None, s1) \<Rightarrow> Inr (ENOMEM, None, s1)
                         | Inr (Some Entry, s1) \<Rightarrow>
                             (case ChalkDictStoreValue Depth d Entry ValueObject s1 of
                                Inl e \<Rightarrow> Inl e
                              | Inr s2 \<Rightarrow> Inr (0, Some Entry, s2)))))))"

text \<open>
  The loop of \<open>ChalkCreateDict\<close> over the entries of the source: each pair is set in
  the new dictionary, and the first status that is not 0 ends the loop.
\<close>

fun CopyEntries ::
  "nat \<Rightarrow> PCHALK_OBJECT \<Rightarrow> CHALK_DICT_ENTRY list \<Rightarrow> chalk_state \<Rightarrow>
   crash + (int \<times> chalk_state)" where
  "CopyEntries Depth Dict [] s = Inr (0, s)"
| "CopyEntries Depth Dict (Entry # Entries) s =
     (case ChalkDictSetElement Depth Dict (Key Entry) (Value Entry) s of
        Inl e \<Rightarrow> Inl e
      | Inr (Status, LValue, s1) \<Rightarrow>
          if Status \<noteq> 0 then Inr (Status, s1)
          else CopyEntries Depth Dict Entries s1)"

definition ChalkCreateDict ::
  "nat \<Rightarrow> PCHALK_OBJECT \<Rightarrow> chalk_state \<Rightarrow> crash + (PCHALK_OBJECT \<times> chalk_state)" where
  "ChalkCreateDict Depth Source s =
     (case ChalkAllocate s of
        (False, s1) \<Rightarrow> Inr (None, s1)
      | (True, s1) \<Rightarrow>
          (let (Dict, s2) =
                 NewObject (Some \<lparr>ReferenceCount = 1,
                   Payload = CHALK_DICT_OBJECT
                     \<lparr>EntryList = [], Count = 0, Generation = 0\<rparr>\<rparr>) s1
           in if Source \<noteq> None then
                (case Deref s2 Source of
                   None \<Rightarrow> Inl MemoryFault
                 | Some SourceHeader \<Rightarrow>
                     (case Payload SourceHeader of
                        CHALK_DICT_OBJECT SourceDict \<Rightarrow>
                          (case CopyEntries Depth (Some Dict) (EntryList SourceDict) s2 of
                             Inl e \<Rightarrow> Inl e
                           | Inr (Status, s3) \<Rightarrow>
                               if Status \<noteq> 0 then
                                 (case ChalkObjectReleaseReference Depth (Some Dict) s3 of
                                    Inl e \<Rightarrow> Inl e
                                  | Inr s4 \<Rightarrow> Inr (None, s4))
                               else Inr (Some Dict, s3))
                      | _ \<Rightarrow> Inl AssertionFailure))
              else Inr (Some Dict, s2)))"

text \<open>
  The iterator of a dictionary: the entry to return next (NULL at the end) and the
  generation of the dictionary when the iterator was made. It belongs to the caller,
  who passes it back at each step (\<open>Context\<close>); \<open>None\<close> is a NULL context.
\<close>

record CHALK_DICT_ITERATOR =
  Next :: "nat option"
  IteratorGeneration :: "32 word"

definition ChalkDictInitializeIterator ::
  "PCHALK_OBJECT \<Rightarrow> CHALK_DICT_ITERATOR option \<Rightarrow> chalk_state \<Rightarrow>
   crash + (int \<times> CHALK_DICT_ITERATOR option \<times> chalk_state)" where
  "ChalkDictInitializeIterator DictObject Context s =
     (case Deref s DictObject of
        None \<Rightarrow> Inl MemoryFault
      | Some Header \<Rightarrow>
          (case Payload Header of
             CHALK_DICT_OBJECT Dict \<Rightarrow>
               (case ChalkAllocate s of
                  (False, s1) \<Rightarrow> Inr (ENOMEM, Context, s1)
                | (True, s1) \<Rightarrow>
                    Inr (0,
                         Some \<lparr>Next = (if EntryList Dict \<noteq> [] then Some 0 else None),
                               IteratorGeneration = Generation Dict\<rparr>,
                         s1))
           | _ \<Rightarrow> Inl AssertionFailure))"

text \<open>
  \<open>ChalkDictIterate\<close> returns the status, the context, what \<open>Iteration\<close> points to
  (the value it had when nothing is written to it) and the state.
\<close>

definition ChalkDictIterate ::
  "PCHALK_OBJECT \<Rightarrow> CHALK_DICT_ITERATOR option \<Rightarrow> PCHALK_OBJECT \<Rightarrow> chalk_state \<Rightarrow>
   crash + (int \<times> CHALK_DICT_ITERATOR option \<times> PCHALK_OBJECT \<times> chalk_state)" where
  "ChalkDictIterate DictObject Context Iteration s =
     (case Deref s DictObject of
        None \<Rightarrow> Inl MemoryFault
      | Some Header \<Rightarrow>
          (case Payload Header of
             CHALK_DICT_OBJECT Dict \<Rightarrow>
               (case Context of
                  None \<Rightarrow> Inl MemoryFault
                | Some Iterator \<Rightarrow>
                    if IteratorGeneration Iterator \<noteq> Generation Dict
                    then Inr (ERANGE, Context, Iteration, s)
                    else
                      (case Next Iterator of
                         None \<Rightarrow> Inr (0, Context, None, s)
                       | Some Entry \<Rightarrow>
                           if Entry \<ge> length (EntryList Dict) then Inl MemoryFault
                           else Inr (0,
                                  Some (Iterator\<lparr>Next :=
                                    (if Suc Entry = length (EntryList Dict) then None
                                     else Some (Suc Entry))\<rparr>),
                                  Key (EntryList Dict ! Entry),
                                  s)))
           | _ \<Rightarrow> Inl AssertionFailure))"

subsection \<open>Functions, copies, truth values\<close>

definition ChalkCreateFunction ::
  "PCHALK_OBJECT \<Rightarrow> nat \<Rightarrow> nat \<Rightarrow> chalk_state \<Rightarrow> crash + (PCHALK_OBJECT \<times> chalk_state)" where
  "ChalkCreateFunction Arguments Body Script s =
     (case ChalkAllocate s of
        (False, s1) \<Rightarrow> Inr (None, s1)
      | (True, s1) \<Rightarrow>
          (let (Function, s2) =
                 NewObject (Some \<lparr>ReferenceCount = 1,
                   Payload = CHALK_FUNCTION Arguments Body Script\<rparr>) s1
           in if Arguments \<noteq> None
              then (case ChalkObjectAddReference Arguments s2 of
                      Inl e \<Rightarrow> Inl e
                    | Inr s3 \<Rightarrow> Inr (Some Function, s3))
              else Inr (Some Function, s2)))"

definition ChalkObjectCopy ::
  "nat \<Rightarrow> PCHALK_OBJECT \<Rightarrow> chalk_state \<Rightarrow> crash + (PCHALK_OBJECT \<times> chalk_state)" where
  "ChalkObjectCopy Depth Source s =
     (case Deref s Source of
        None \<Rightarrow> Inl MemoryFault
      | Some Object \<Rightarrow>
          (case Payload Object of
             CHALK_NULL \<Rightarrow> ChalkCreateNull s
           | CHALK_INT IntValue \<Rightarrow> Inr (ChalkCreateInteger IntValue s)
           | CHALK_STRING String Size \<Rightarrow> ChalkCreateString (Some String) Size s
           | CHALK_LIST Array \<Rightarrow> ChalkCreateList (Some Array) (of_nat (length Array)) s
           | CHALK_DICT_OBJECT Dict \<Rightarrow> ChalkCreateDict Depth Source s
           | CHALK_FUNCTION Arguments Body Script \<Rightarrow>
               ChalkCreateFunction Arguments Body Script s))"

definition ChalkObjectGetBooleanValue :: "PCHALK_OBJECT \<Rightarrow> chalk_state \<Rightarrow> crash + bool" where
  "ChalkObjectGetBooleanValue Object s =
     (case Deref s Object of
        None \<Rightarrow> Inl MemoryFault
      | Some Header \<Rightarrow>
          (case Payload Header of
             CHALK_NULL \<Rightarrow> Inr False
           | CHALK_INT IntValue \<Rightarrow> Inr (IntValue \<noteq> 0)
           | CHALK_STRING String Size \<Rightarrow> Inr (Size \<noteq> 0)
           | CHALK_LIST Array \<Rightarrow> Inr (length Array \<noteq> 0)
           | CHALK_DICT_OBJECT Dict \<Rightarrow> Inr (EntryList Dict \<noteq> [])
           | CHALK_FUNCTION Arguments Body Script \<Rightarrow> Inr True))"

subsection \<open>Built-in functions\<close>

text \<open>
  The built-in functions read their arguments from the interpreter with
  \<open>ChalkCGetVariable\<close>, which is not part of obj.c: the model takes the objects
  found there (\<open>Object\<close>, \<open>KeyObject\<close>) as parameters. The result is the status, what
  \<open>ReturnValue\<close> points to, and the state. In \<open>ChalkFunctionLength\<close> the length is
  held in a \<open>UINTN\<close> and widened to the \<open>LONGLONG\<close> of the new integer.
\<close>

definition ChalkFunctionLength ::
  "PCHALK_OBJECT \<Rightarrow> chalk_state \<Rightarrow> crash + (int \<times> PCHALK_OBJECT \<times> chalk_state)" where
  "ChalkFunctionLength Object s =
     (if Object = None then Inl AssertionFailure
      else
        (case Deref s Object of
           None \<Rightarrow> Inl MemoryFault
         | Some Header \<Rightarrow>
             (case (case Payload Header of
                      CHALK_STRING String Size \<Rightarrow>
                        (case strlen String of
                           None \<Rightarrow> Inl MemoryFault
                         | Some n \<Rightarrow> Inr (of_nat n :: 32 word))
                    | CHALK_LIST Array \<Rightarrow> Inr (of_nat (length Array))
                    | CHALK_DICT_OBJECT Dict \<Rightarrow> Inr (Count Dict)
                    | _ \<Rightarrow> Inr 0) of
                Inl e \<Rightarrow> Inl e
              | Inr LengthValue \<Rightarrow>
                  (case ChalkCreateInteger (ucast LengthValue) s of
                     (None, s1) \<Rightarrow> Inr (ENOMEM, None, s1)
                   | (Some Integer, s1) \<Rightarrow> Inr (0, Some Integer, s1)))))"

definition ChalkFunctionGet ::
  "nat \<Rightarrow> PCHALK_OBJECT \<Rightarrow> PCHALK_OBJECT \<Rightarrow> PCHALK_OBJECT \<Rightarrow> chalk_state \<Rightarrow>
   crash + (int \<times> PCHALK_OBJECT \<times> chalk_state)" where
  "ChalkFunctionGet Depth Object KeyObject ReturnValue s =
     (if Object = None \<or> KeyObject = None then Inl AssertionFailure
      else
        (case Deref s Object of
           None \<Rightarrow> Inl MemoryFault
         | Some Header \<Rightarrow>
             if HeaderType Header \<noteq> ChalkObjectDict \<and> HeaderType Header \<noteq> ChalkObjectNull
             then Inr (EINVAL, ReturnValue, s)
             else
               (case (if HeaderType Header = ChalkObjectDict
                      then (case ChalkDictLookup Depth Object KeyObject s of
                              Inl e \<Rightarrow> Inl e
                            | Inr None \<Rightarrow> Inr (None, s)
                            | Inr (Some Entry) \<Rightarrow>
                                (case DictFields s Object of
                                   Inl e \<Rightarrow> Inl e
                                 | Inr Dict \<Rightarrow>
                                     (case ChalkObjectAddReference
                                             (Value (EntryList Dict ! Entry)) s of
                                        Inl e \<Rightarrow> Inl e
                                      | Inr s1 \<Rightarrow>
                                          Inr (Value (EntryList Dict ! Entry), s1))))
                      else Inr (None, s)) of
                  Inl e \<Rightarrow> Inl e
                | Inr (None, s1) \<Rightarrow>
                    (case ChalkCreateNull s1 of
                       Inl e \<Rightarrow> Inl e
                     | Inr (NullObject, s2) \<Rightarrow> Inr (0, NullObject, s2))
                | Inr (Some ValueObject, s1) \<Rightarrow> Inr (0, Some ValueObject, s1))))"

subsection \<open>States for the examples\<close>

text \<open>
  A heap with an object of every kind: the null object, the integers 0 and 5, the empty
  string and the string \<open>ab\<close>, a list of two slots (the integer 5 and a hole), an
  empty dictionary, a dictionary with one entry (the string \<open>ab\<close> to the integer 5),
  and a function with no argument list.
\<close>

definition TruthState :: chalk_state where
  "TruthState =
     \<lparr>Heap =
        [Some \<lparr>ReferenceCount = 1, Payload = CHALK_NULL\<rparr>,
         Some \<lparr>ReferenceCount = 1, Payload = CHALK_INT 0\<rparr>,
         Some \<lparr>ReferenceCount = 3, Payload = CHALK_INT 5\<rparr>,
         Some \<lparr>ReferenceCount = 1, Payload = CHALK_STRING [0] 0\<rparr>,
         Some \<lparr>ReferenceCount = 1, Payload = CHALK_LIST [Some 2, None]\<rparr>,
         Some \<lparr>ReferenceCount = 1, Payload = CHALK_DICT_OBJECT
                 \<lparr>EntryList = [], Count = 0, Generation = 0\<rparr>\<rparr>,
         Some \<lparr>ReferenceCount = 1, Payload = CHALK_DICT_OBJECT
                 \<lparr>EntryList = [\<lparr>Key = Some 8, Value = Some 2\<rparr>], Count = 1, Generation = 1\<rparr>\<rparr>,
         Some \<lparr>ReferenceCount = 1, Payload = CHALK_FUNCTION None 0 0\<rparr>,
         Some \<lparr>ReferenceCount = 2, Payload = CHALK_STRING [0x61, 0x62, 0] 2\<rparr>],
      Allocator = [True, True, True, True]\<rparr>"

subsection \<open>What a release leaves in place\<close>

text \<open>
  \<open>Frame s s1\<close>: from \<open>s\<close> to \<open>s1\<close> no memory was asked for, no address was
  added, and every object that is live in \<open>s1\<close> was live in \<open>s\<close> with the same
  fields; only its reference count may differ. \<open>RefSum\<close> is the sum of the reference
  counts of the live objects.
\<close>

definition Frame :: "chalk_state \<Rightarrow> chalk_state \<Rightarrow> bool" where
  "Frame s s1 \<longleftrightarrow>
     Allocator s1 = Allocator s \<and> length (Heap s1) = length (Heap s) \<and>
     (\<forall>a Object1. Deref s1 (Some a) = Some Object1 \<longrightarrow>
        (\<exists>Object. Deref s (Some a) = Some Object \<and> Payload Object1 = Payload Object))"

definition RefSum :: "chalk_state \<Rightarrow> nat" where
  "RefSum s =
     sum_list (map (\<lambda>Slot. case Slot of None \<Rightarrow> 0 | Some Object \<Rightarrow> unat (ReferenceCount Object))
       (Heap s))"

text \<open>
  A dictionary with one entry, from the string \<open>a\<close> to the integer 1, beside objects
  that are not in it: the string \<open>b\<close>, the integer 2 and a second string \<open>a\<close>.
\<close>

definition DictState :: chalk_state where
  "DictState =
     \<lparr>Heap =
        [Some \<lparr>ReferenceCount = 1, Payload = CHALK_NULL\<rparr>,
         Some \<lparr>ReferenceCount = 2, Payload = CHALK_STRING [0x61, 0] 1\<rparr>,
         Some \<lparr>ReferenceCount = 2, Payload = CHALK_INT 1\<rparr>,
         Some \<lparr>ReferenceCount = 1, Payload = CHALK_DICT_OBJECT
                 \<lparr>EntryList = [\<lparr>Key = Some 1, Value = Some 2\<rparr>], Count = 1, Generation = 1\<rparr>\<rparr>,
         Some \<lparr>ReferenceCount = 1, Payload = CHALK_STRING [0x62, 0] 1\<rparr>,
         Some \<lparr>ReferenceCount = 1, Payload = CHALK_INT 2\<rparr>,
         Some \<lparr>ReferenceCount = 1, Payload = CHALK_STRING [0x61, 0] 1\<rparr>],
      Allocator = [True, True, True]\<rparr>"

text \<open>
  A list that holds a nested list, a hole and an integer: the list at address 3 has the
  slots (list 2, hole, integer 1), and the list at address 2 has the one slot
  (integer 1). The integer 9 at address 4 is in neither.
\<close>

definition NestedState :: chalk_state where
  "NestedState =
     \<lparr>Heap =
        [Some \<lparr>ReferenceCount = 1, Payload = CHALK_NULL\<rparr>,
         Some \<lparr>ReferenceCount = 3, Payload = CHALK_INT 7\<rparr>,
         Some \<lparr>ReferenceCount = 2, Payload = CHALK_LIST [Some 1]\<rparr>,
         Some \<lparr>ReferenceCount = 1, Payload = CHALK_LIST [Some 2, None, Some 1]\<rparr>,
         Some \<lparr>ReferenceCount = 1, Payload = CHALK_INT 9\<rparr>],
      Allocator = [True, True, True, True]\<rparr>"

subsection \<open>The order the specification gives\<close>

text \<open>
  The values the order is stated for: null, integers, strings without a zero byte
  and lists, without holes, of such values. \<open>ValueOf\<close> reads the value an object
  stands for off the heap, down to a given depth; it is \<open>None\<close> for a pointer that is
  NULL or dangling, for a dictionary or a function, for a string whose buffer is not
  \<open>Size\<close> bytes without a zero followed by the terminator, for a list with a hole,
  and for a list nested deeper than the depth.
\<close>

datatype CHALK_VALUE =
    NullValue
  | IntegerValue int
  | StringValue "8 word list"
  | ListValue "CHALK_VALUE list"

fun ValueOf :: "nat \<Rightarrow> chalk_state \<Rightarrow> PCHALK_OBJECT \<Rightarrow> CHALK_VALUE option" where
  "ValueOf 0 s Object = None"
| "ValueOf (Suc Depth) s Object =
     (case Deref s Object of
        None \<Rightarrow> None
      | Some Header \<Rightarrow>
          (case Payload Header of
             CHALK_NULL \<Rightarrow> Some NullValue
           | CHALK_INT IntValue \<Rightarrow> Some (IntegerValue (sint IntValue))
           | CHALK_STRING String Size \<Rightarrow>
               if length String = Suc (unat Size) \<and> last String = 0 \<and> 0 \<notin> set (butlast String)
               then Some (StringValue (butlast String))
               else None
           | CHALK_LIST Array \<Rightarrow>
               map_option ListValue (those (map (ValueOf Depth s) Array))
           | _ \<Rightarrow> None))"

text \<open>
  The order of the specification, in its words: values of different kinds are ordered
  by the number of the kind (null, integer, string, list: 1, 2, 3, 5); two null values
  are equal; integers compare numerically; strings compare byte by byte,
  lexicographically (\<open>ord_class.lexordp\<close>, over the order of the bytes as unsigned numbers);
  lists compare by length first, the shorter one below, and at equal length element by
  element until a difference is found.
\<close>

fun KindNumber :: "CHALK_VALUE \<Rightarrow> nat" where
  "KindNumber NullValue = 1"
| "KindNumber (IntegerValue i) = 2"
| "KindNumber (StringValue b) = 3"
| "KindNumber (ListValue l) = 5"

fun SpecCompare :: "CHALK_VALUE \<Rightarrow> CHALK_VALUE \<Rightarrow> int"
  and SpecCompareElements :: "CHALK_VALUE list \<Rightarrow> CHALK_VALUE list \<Rightarrow> int" where
  "SpecCompare NullValue NullValue = 0"
| "SpecCompare (IntegerValue a) (IntegerValue b) =
     (if a < b then - 1 else if a > b then 1 else 0)"
| "SpecCompare (StringValue a) (StringValue b) =
     (if ord_class.lexordp a b then - 1 else if ord_class.lexordp b a then 1 else 0)"
| "SpecCompare (ListValue a) (ListValue b) =
     (if length a < length b then - 1
      else if length a > length b then 1
      else SpecCompareElements a b)"
| "SpecCompare a b = (if KindNumber a < KindNumber b then - 1 else 1)"
| "SpecCompareElements (x # xs) (y # ys) =
     (if SpecCompare x y \<noteq> 0 then SpecCompare x y else SpecCompareElements xs ys)"
| "SpecCompareElements xs ys = 0"

text \<open>
  The sample of the specification: null; the integers -1, 0 and 5; the strings
  \<open>""\<close>, \<open>a\<close> and \<open>ab\<close>; the lists \<open>[]\<close>, \<open>[1]\<close> and \<open>[1, 2]\<close>; and second
  instances of the integer 1, of the list \<open>[1, 2]\<close> (holding the second instance of 1)
  and of the string \<open>ab\<close>.
\<close>

definition SampleState :: chalk_state where
  "SampleState =
     \<lparr>Heap =
        [Some \<lparr>ReferenceCount = 1, Payload = CHALK_NULL\<rparr>,
         Some \<lparr>ReferenceCount = 1, Payload = CHALK_INT (- 1)\<rparr>,
         Some \<lparr>ReferenceCount = 1, Payload = CHALK_INT 0\<rparr>,
         Some \<lparr>ReferenceCount = 1, Payload = CHALK_INT 5\<rparr>,
         Some \<lparr>ReferenceCount = 1, Payload = CHALK_STRING [0] 0\<rparr>,
         Some \<lparr>ReferenceCount = 1, Payload = CHALK_STRING [0x61, 0] 1\<rparr>,
         Some \<lparr>ReferenceCount = 1, Payload = CHALK_STRING [0x61, 0x62, 0] 2\<rparr>,
         Some \<lparr>ReferenceCount = 1, Payload = CHALK_LIST []\<rparr>,
         Some \<lparr>ReferenceCount = 3, Payload = CHALK_INT 1\<rparr>,
         Some \<lparr>ReferenceCount = 1, Payload = CHALK_LIST [Some 8]\<rparr>,
         Some \<lparr>ReferenceCount = 3, Payload = CHALK_INT 2\<rparr>,
         Some \<lparr>ReferenceCount = 1, Payload = CHALK_LIST [Some 8, Some 10]\<rparr>,
         Some \<lparr>ReferenceCount = 2, Payload = CHALK_INT 1\<rparr>,
         Some \<lparr>ReferenceCount = 1, Payload = CHALK_LIST [Some 12, Some 10]\<rparr>,
         Some \<lparr>ReferenceCount = 1, Payload = CHALK_STRING [0x61, 0x62, 0] 2\<rparr>],
      Allocator = []\<rparr>"

subsection \<open>Objects without holes\<close>

text \<open>
  \<open>HoleFree Depth s Object\<close>: the pointer is to a live object; if it is a string, its
  buffer has a terminator; if it is a list, none of its slots is a hole and every
  element is again without holes, with the nesting of lists less than \<open>Depth\<close>.
\<close>

fun HoleFree :: "nat \<Rightarrow> chalk_state \<Rightarrow> PCHALK_OBJECT \<Rightarrow> bool" where
  "HoleFree 0 s Object = False"
| "HoleFree (Suc Depth) s Object =
     (case Deref s Object of
        None \<Rightarrow> False
      | Some Header \<Rightarrow>
          (case Payload Header of
             CHALK_STRING String Size \<Rightarrow> 0 \<in> set String
           | CHALK_LIST Array \<Rightarrow> list_all (HoleFree Depth s) Array
           | _ \<Rightarrow> True))"

text \<open>
  Two lists of one slot, each a hole; and two lists that hold the integer 1 and then a
  hole.
\<close>

definition HoleState :: chalk_state where
  "HoleState =
     \<lparr>Heap =
        [Some \<lparr>ReferenceCount = 1, Payload = CHALK_NULL\<rparr>,
         Some \<lparr>ReferenceCount = 1, Payload = CHALK_LIST [None]\<rparr>,
         Some \<lparr>ReferenceCount = 1, Payload = CHALK_LIST [None]\<rparr>,
         Some \<lparr>ReferenceCount = 3, Payload = CHALK_INT 1\<rparr>,
         Some \<lparr>ReferenceCount = 1, Payload = CHALK_LIST [Some 3, None]\<rparr>,
         Some \<lparr>ReferenceCount = 1, Payload = CHALK_LIST [Some 3, None]\<rparr>,
         Some \<lparr>ReferenceCount = 1, Payload = CHALK_LIST [Some 3, Some 3]\<rparr>,
         Some \<lparr>ReferenceCount = 1, Payload = CHALK_LIST [Some 6, Some 3]\<rparr>],
      Allocator = []\<rparr>"

section \<open>Properties\<close>

subsection \<open>Truth values\<close>

text \<open>
  C8. The truth value of an object, kind by kind: a null object is false; an integer is
  true exactly when its value is not zero; a string exactly when its stored size is not
  zero; a list exactly when its slot count is not zero; a dictionary exactly when it has
  at least one entry; a function is always true.
\<close>

theorem ChalkObjectGetBooleanValue_by_kind:
  assumes "Deref s Object = Some Header"
  shows "(HeaderType Header = ChalkObjectNull \<longrightarrow>
            ChalkObjectGetBooleanValue Object s = Inr False)
       \<and> (\<forall>IntValue. Payload Header = CHALK_INT IntValue \<longrightarrow>
            ChalkObjectGetBooleanValue Object s = Inr (IntValue \<noteq> 0))
       \<and> (\<forall>String Size. Payload Header = CHALK_STRING String Size \<longrightarrow>
            ChalkObjectGetBooleanValue Object s = Inr (Size \<noteq> 0))
       \<and> (\<forall>Array. Payload Header = CHALK_LIST Array \<longrightarrow>
            ChalkObjectGetBooleanValue Object s = Inr (length Array \<noteq> 0))
       \<and> (\<forall>Dict. Payload Header = CHALK_DICT_OBJECT Dict \<longrightarrow>
            ChalkObjectGetBooleanValue Object s = Inr (1 \<le> length (EntryList Dict)))
       \<and> (HeaderType Header = ChalkObjectFunction \<longrightarrow>
            ChalkObjectGetBooleanValue Object s = Inr True)"
  using assms
  by (cases "Payload Header")
     (auto simp: ChalkObjectGetBooleanValue_def HeaderType_def Suc_le_eq)

theorem ChalkObjectGetBooleanValue_by_kind_witness:
  "ChalkObjectGetBooleanValue (Some 0) (TruthState) = Inr False
   \<and> ChalkObjectGetBooleanValue (Some 1) (TruthState) = Inr False
   \<and> ChalkObjectGetBooleanValue (Some 2) (TruthState) = Inr True
   \<and> ChalkObjectGetBooleanValue (Some 3) (TruthState) = Inr False
   \<and> ChalkObjectGetBooleanValue (Some 4) (TruthState) = Inr True
   \<and> ChalkObjectGetBooleanValue (Some 5) (TruthState) = Inr False
   \<and> ChalkObjectGetBooleanValue (Some 6) (TruthState) = Inr True
   \<and> ChalkObjectGetBooleanValue (Some 7) (TruthState) = Inr True"
proof -
  have d: "\<And>a. a < 8 \<Longrightarrow> Deref TruthState (Some a) = Some (the (Heap TruthState ! a))"
    by (simp add: TruthState_def Deref_def nth_Cons split: nat.splits)
  have "0 < (8::nat)" "1 < (8::nat)" "2 < (8::nat)" "3 < (8::nat)" "4 < (8::nat)"
    "5 < (8::nat)" "6 < (8::nat)" "7 < (8::nat)"
    by simp_all
  note l = this
  show ?thesis
    using ChalkObjectGetBooleanValue_by_kind [OF d [OF l(1)]]
      ChalkObjectGetBooleanValue_by_kind [OF d [OF l(2)]]
      ChalkObjectGetBooleanValue_by_kind [OF d [OF l(3)]]
      ChalkObjectGetBooleanValue_by_kind [OF d [OF l(4)]]
      ChalkObjectGetBooleanValue_by_kind [OF d [OF l(5)]]
      ChalkObjectGetBooleanValue_by_kind [OF d [OF l(6)]]
      ChalkObjectGetBooleanValue_by_kind [OF d [OF l(7)]]
      ChalkObjectGetBooleanValue_by_kind [OF d [OF l(8)]]
    by (simp add: TruthState_def HeaderType_def)
qed

subsection \<open>Keys of a dictionary\<close>

text \<open>
  C6. Setting an element of a dictionary under a key that is neither an integer nor a
  string returns \<open>EINVAL\<close>, an ordinary status and not a failed assertion, and the
  state it returns is the state it was given: no entry, count, generation or reference
  count has changed, and no memory was asked for.
\<close>

theorem ChalkDictSetElement_invalid_key:
  assumes "Deref s (Some d) = Some Header"
    and "HeaderType Header = ChalkObjectDict"
    and "Deref s KeyObject = Some KeyHeader"
    and "HeaderType KeyHeader \<noteq> ChalkObjectInteger"
    and "HeaderType KeyHeader \<noteq> ChalkObjectString"
  shows "ChalkDictSetElement Depth (Some d) KeyObject ValueObject s = Inr (EINVAL, None, s)"
proof -
  from assms(3) have "KeyObject \<noteq> None"
    by (auto simp: Deref_def split: option.splits)
  with assms show ?thesis
    by (simp add: ChalkDictSetElement_def)
qed

theorem ChalkDictSetElement_invalid_key_witness:
  "ChalkDictSetElement 3 (Some 5) (Some 4) (Some 2) TruthState = Inr (EINVAL, None, TruthState)
   \<and> ChalkDictSetElement 3 (Some 5) (Some 0) (Some 2) TruthState = Inr (EINVAL, None, TruthState)
   \<and> ChalkDictSetElement 3 (Some 5) (Some 7) (Some 2) TruthState = Inr (EINVAL, None, TruthState)
   \<and> ChalkDictSetElement 3 (Some 5) (Some 6) (Some 2) TruthState = Inr (EINVAL, None, TruthState)"
proof -
  have d: "\<And>a. a < 8 \<Longrightarrow> Deref TruthState (Some a) = Some (the (Heap TruthState ! a))"
    by (simp add: TruthState_def Deref_def nth_Cons split: nat.splits)
  have k: "HeaderType (the (Heap TruthState ! 5)) = ChalkObjectDict"
    by (simp add: TruthState_def HeaderType_def)
  have n: "HeaderType (the (Heap TruthState ! 4)) \<noteq> ChalkObjectInteger"
    "HeaderType (the (Heap TruthState ! 4)) \<noteq> ChalkObjectString"
    "HeaderType (the (Heap TruthState ! 0)) \<noteq> ChalkObjectInteger"
    "HeaderType (the (Heap TruthState ! 0)) \<noteq> ChalkObjectString"
    "HeaderType (the (Heap TruthState ! 7)) \<noteq> ChalkObjectInteger"
    "HeaderType (the (Heap TruthState ! 7)) \<noteq> ChalkObjectString"
    "HeaderType (the (Heap TruthState ! 6)) \<noteq> ChalkObjectInteger"
    "HeaderType (the (Heap TruthState ! 6)) \<noteq> ChalkObjectString"
    by (simp_all add: TruthState_def HeaderType_def)
  have "5 < (8::nat)" "4 < (8::nat)" "0 < (8::nat)" "7 < (8::nat)" "6 < (8::nat)"
    by simp_all
  note l = this
  show ?thesis
    using ChalkDictSetElement_invalid_key [OF d [OF l(1)] k d [OF l(2)] n(1) n(2)]
      ChalkDictSetElement_invalid_key [OF d [OF l(1)] k d [OF l(3)] n(3) n(4)]
      ChalkDictSetElement_invalid_key [OF d [OF l(1)] k d [OF l(4)] n(5) n(6)]
      ChalkDictSetElement_invalid_key [OF d [OF l(1)] k d [OF l(5)] n(7) n(8)]
    by simp
qed

subsection \<open>The length of a string\<close>

text \<open>
  The built-in length function measures a string with \<open>strlen\<close>: its result is the
  number of bytes before the first zero byte of the buffer, whatever \<open>Size\<close> says.
\<close>

lemma ChalkFunctionLength_string:
  assumes "Deref s Object = Some Header"
    and "Payload Header = CHALK_STRING String Size"
    and "strlen String = Some n"
  shows "ChalkFunctionLength Object s =
           (case ChalkCreateInteger (ucast (of_nat n :: 32 word)) s of
              (None, s1) \<Rightarrow> Inr (ENOMEM, None, s1)
            | (Some Integer, s1) \<Rightarrow> Inr (0, Some Integer, s1))"
proof -
  from assms(1) have "Object \<noteq> None"
    by (auto simp: Deref_def split: option.splits)
  with assms show ?thesis
    by (auto simp: ChalkFunctionLength_def)
qed

text \<open>
  C3. The specification has the length of a string made from \<open>n\<close> bytes be \<open>n\<close>, zero
  bytes included. The code returns the \<open>strlen\<close> of the buffer: for the three bytes
  \<open>a\<close>, zero, \<open>b\<close>, made into a string of size 3, the length it returns is the
  integer 1.
\<close>

theorem ChalkFunctionLength_embedded_zero:
  "(case ChalkCreateString (Some [0x61, 0, 0x62]) 3 (InitialState [True, True, True]) of
      Inl e \<Rightarrow> False
    | Inr (String, s1) \<Rightarrow>
        map_option Payload (Deref s1 String) = Some (CHALK_STRING [0x61, 0, 0x62, 0] 3)
        \<and> (case ChalkFunctionLength String s1 of
              Inl e \<Rightarrow> False
            | Inr (Status, ReturnValue, s2) \<Rightarrow>
                Status = 0
                \<and> map_option Payload (Deref s2 ReturnValue) = Some (CHALK_INT 1)))"
  by (simp add: ChalkCreateString_def ChalkAllocate_def NewObject_def InitialState_def
      ChalkFunctionLength_def Deref_def strlen_def ChalkCreateInteger_def Let_def)

subsection \<open>Reading the heap after a write\<close>

lemma Deref_Some:
  "Deref s p = Some Object \<longleftrightarrow> (\<exists>a. p = Some a \<and> a < length (Heap s) \<and> Heap s ! a = Some Object)"
  by (auto simp: Deref_def split: option.splits)

lemma Deref_None_pointer [simp]: "Deref s None = None"
  by (simp add: Deref_def)

lemma Deref_StoreObject:
  "Deref (StoreObject a Object s) p =
     (if p = Some a \<and> a < length (Heap s) then Some Object else Deref s p)"
  by (auto simp: Deref_def StoreObject_def split: option.splits)

lemma Deref_ChalkFree:
  "Deref (ChalkFree a s) p = (if p = Some a then None else Deref s p)"
  by (auto simp: Deref_def ChalkFree_def split: option.splits)

lemma Deref_NewObject:
  "Deref (snd (NewObject Object s)) p =
     (if p = Some (length (Heap s)) then Object else Deref s p)"
  by (auto simp: Deref_def NewObject_def nth_append split: option.splits)

lemma Frame_refl [simp]: "Frame s s"
  by (simp add: Frame_def)

lemma Frame_trans: "Frame s s1 \<Longrightarrow> Frame s1 s2 \<Longrightarrow> Frame s s2"
  unfolding Frame_def by (metis)

lemma Frame_StoreObject:
  assumes "Deref s (Some a) = Some Object" and "Payload Object1 = Payload Object"
  shows "Frame s (StoreObject a Object1 s)"
  using assms unfolding Frame_def
  by (auto simp: Deref_StoreObject) (auto simp: StoreObject_def)

lemma Frame_ChalkFree: "Frame s (ChalkFree a s)"
  unfolding Frame_def
  by (auto simp: Deref_ChalkFree) (auto simp: ChalkFree_def)

lemma ChalkObjectAddReference_Inr:
  assumes "ChalkObjectAddReference p s = Inr s1"
  obtains a Object where "p = Some a" "Deref s (Some a) = Some Object"
    "ReferenceCount Object \<noteq> 0" "ReferenceCount Object < 0x10000000"
    "s1 = StoreObject a (Object\<lparr>ReferenceCount := ReferenceCount Object + 1\<rparr>) s"
  using assms
  by (auto simp: ChalkObjectAddReference_def split: option.splits if_splits)

lemma ChalkObjectAddReference_Frame:
  assumes "ChalkObjectAddReference p s = Inr s1"
  shows "Frame s s1"
  using assms by (elim ChalkObjectAddReference_Inr) (simp add: Frame_StoreObject)

lemma ReleaseSlots_Frame:
  assumes "\<And>p s s1. Release p s = Inr s1 \<Longrightarrow> Frame s s1"
  shows "ReleaseSlots Release Array s = Inr s1 \<Longrightarrow> Frame s s1"
proof (induction Array arbitrary: s)
  case Nil
  then show ?case by simp
next
  case (Cons x Array)
  show ?case
  proof (cases x)
    case None
    with Cons show ?thesis by simp
  next
    case (Some a)
    with Cons.prems obtain s2 where "Release (Some a) s = Inr s2"
      and "ReleaseSlots Release Array s2 = Inr s1"
      by (auto split: sum.splits)
    then show ?thesis
      using Cons.IH assms by (blast intro: Frame_trans)
  qed
qed

lemma ReleaseEntries_Frame:
  assumes "\<And>p s s1. Release p s = Inr s1 \<Longrightarrow> Frame s s1"
  shows "ReleaseEntries Release Entries s = Inr s1 \<Longrightarrow> Frame s s1"
proof (induction Entries arbitrary: s)
  case Nil
  then show ?case by simp
next
  case (Cons Entry Entries)
  from Cons.prems obtain s2 s3 where k: "Release (Key Entry) s = Inr s2"
    and v: "(if Value Entry \<noteq> None then Release (Value Entry) s2 else Inr s2) = Inr s3"
    and r: "ReleaseEntries Release Entries s3 = Inr s1"
    by (auto split: sum.splits)
  from v have "Frame s2 s3"
    using assms by (auto split: if_splits)
  with k r show ?case
    using Cons.IH assms by (blast intro: Frame_trans)
qed

lemma ChalkGutObject_Frame:
  assumes "\<And>p s s1. Release p s = Inr s1 \<Longrightarrow> Frame s s1"
    and "ChalkGutObject Release Object s = Inr s1"
  shows "Frame s s1"
  using assms(2)
  by (auto simp: ChalkGutObject_def split: CHALK_UNION.splits sum.splits if_splits
      intro: ReleaseSlots_Frame ReleaseEntries_Frame assms(1))

lemma ChalkObjectReleaseReference_Frame:
  "ChalkObjectReleaseReference Depth p s = Inr s1 \<Longrightarrow> Frame s s1"
proof (induction Depth arbitrary: p s s1)
  case 0
  then show ?case by simp
next
  case (Suc Depth)
  from Suc.prems obtain a Header where p: "p = Some a" and h: "Deref s (Some a) = Some Header"
    by (auto split: option.splits)
  let ?h1 = "Header\<lparr>ReferenceCount := ReferenceCount Header - 1\<rparr>"
  let ?s1 = "StoreObject a ?h1 s"
  have f1: "Frame s ?s1"
    using h by (simp add: Frame_StoreObject)
  show ?case
  proof (cases "ReferenceCount ?h1 = 0")
    case True
    with Suc.prems p h obtain s2 where
      g: "ChalkGutObject (ChalkObjectReleaseReference Depth) ?h1 ?s1 = Inr s2"
      and e: "s1 = ChalkFree a s2"
      by (auto simp: Let_def split: if_splits sum.splits)
    have "Frame ?s1 s2"
      using Suc.IH g by (rule ChalkGutObject_Frame)
    with f1 e show ?thesis
      by (blast intro: Frame_trans Frame_ChalkFree)
  next
    case False
    with Suc.prems p h have "s1 = ?s1"
      by (auto simp: Let_def split: if_splits)
    with f1 show ?thesis by simp
  qed
qed

subsection \<open>The depth a release needs\<close>

lemma RefSum_StoreObject:
  assumes "Deref s (Some a) = Some Object"
  shows "RefSum (StoreObject a Object1 s) =
           RefSum s + unat (ReferenceCount Object1) - unat (ReferenceCount Object)"
proof -
  from assms have a: "a < length (Heap s)" and h: "Heap s ! a = Some Object"
    by (auto simp: Deref_Some)
  then show ?thesis
    by (simp add: RefSum_def StoreObject_def map_update sum_list_update)
qed

lemma RefSum_ChalkFree: "RefSum (ChalkFree a s) \<le> RefSum s"
proof (cases "a < length (Heap s)")
  case True
  then show ?thesis
    by (simp add: RefSum_def ChalkFree_def map_update sum_list_update)
next
  case False
  then show ?thesis
    by (simp add: RefSum_def ChalkFree_def list_update_beyond)
qed

lemma ReleaseSlots_depth:
  assumes R: "\<And>p s. RefSum s < n \<Longrightarrow>
      Release p s \<noteq> Inl DepthExceeded \<and> (\<forall>s1. Release p s = Inr s1 \<longrightarrow> RefSum s1 \<le> RefSum s)"
  shows "RefSum s < n \<Longrightarrow>
      ReleaseSlots Release Array s \<noteq> Inl DepthExceeded \<and>
      (\<forall>s1. ReleaseSlots Release Array s = Inr s1 \<longrightarrow> RefSum s1 \<le> RefSum s)"
proof (induction Array arbitrary: s)
  case Nil
  then show ?case by simp
next
  case (Cons x Array)
  show ?case
  proof (cases x)
    case None
    with Cons show ?thesis by simp
  next
    case (Some a)
    show ?thesis
    proof (cases "Release (Some a) s")
      case (Inl e)
      with R [OF Cons.prems, of "Some a"] Some show ?thesis by simp
    next
      case (Inr s2)
      with R [OF Cons.prems, of "Some a"] have le: "RefSum s2 \<le> RefSum s" by simp
      with Cons.prems have "RefSum s2 < n" by simp
      from Cons.IH [OF this] le Some Inr show ?thesis by auto
    qed
  qed
qed

lemma ReleaseEntries_depth:
  assumes R: "\<And>p s. RefSum s < n \<Longrightarrow>
      Release p s \<noteq> Inl DepthExceeded \<and> (\<forall>s1. Release p s = Inr s1 \<longrightarrow> RefSum s1 \<le> RefSum s)"
  shows "RefSum s < n \<Longrightarrow>
      ReleaseEntries Release Entries s \<noteq> Inl DepthExceeded \<and>
      (\<forall>s1. ReleaseEntries Release Entries s = Inr s1 \<longrightarrow> RefSum s1 \<le> RefSum s)"
proof (induction Entries arbitrary: s)
  case Nil
  then show ?case by simp
next
  case (Cons Entry Entries)
  show ?case
  proof (cases "Release (Key Entry) s")
    case (Inl e)
    with R [OF Cons.prems, of "Key Entry"] show ?thesis by simp
  next
    case s2: (Inr s2)
    with R [OF Cons.prems, of "Key Entry"] have le2: "RefSum s2 \<le> RefSum s" by simp
    with Cons.prems have n2: "RefSum s2 < n" by simp
    let ?v = "if Value Entry \<noteq> None then Release (Value Entry) s2 else Inr s2"
    show ?thesis
    proof (cases ?v)
      case (Inl e)
      with R [OF n2, of "Value Entry"] s2 show ?thesis
        by (auto split: if_splits)
    next
      case s3: (Inr s3)
      with R [OF n2, of "Value Entry"] have le3: "RefSum s3 \<le> RefSum s2"
        by (auto split: if_splits)
      with n2 have "RefSum s3 < n" by simp
      from Cons.IH [OF this] le2 le3 s2 s3 show ?thesis by auto
    qed
  qed
qed

lemma ChalkGutObject_depth:
  assumes R: "\<And>p s. RefSum s < n \<Longrightarrow>
      Release p s \<noteq> Inl DepthExceeded \<and> (\<forall>s1. Release p s = Inr s1 \<longrightarrow> RefSum s1 \<le> RefSum s)"
    and n: "RefSum s < n"
  shows "ChalkGutObject Release Object s \<noteq> Inl DepthExceeded \<and>
      (\<forall>s1. ChalkGutObject Release Object s = Inr s1 \<longrightarrow> RefSum s1 \<le> RefSum s)"
proof (cases "Payload Object")
  case (CHALK_LIST Array)
  with ReleaseSlots_depth [of n Release s Array, OF R n] show ?thesis
    by (simp add: ChalkGutObject_def)
next
  case (CHALK_DICT_OBJECT Dict)
  with ReleaseEntries_depth [of n Release s "EntryList Dict", OF R n] show ?thesis
    by (auto simp: ChalkGutObject_def split: sum.splits if_splits)
next
  case (CHALK_FUNCTION Arguments Body Script)
  with R [OF n, of Arguments] show ?thesis
    by (auto simp: ChalkGutObject_def)
qed (simp_all add: ChalkGutObject_def)

lemma ChalkObjectReleaseReference_depth:
  "RefSum s < Depth \<Longrightarrow>
     ChalkObjectReleaseReference Depth p s \<noteq> Inl DepthExceeded \<and>
     (\<forall>s1. ChalkObjectReleaseReference Depth p s = Inr s1 \<longrightarrow> RefSum s1 < RefSum s)"
proof (induction Depth arbitrary: p s)
  case 0
  then show ?case by simp
next
  case (Suc Depth)
  show ?case
  proof (cases "\<exists>a Header. p = Some a \<and> Deref s p = Some Header \<and>
      ReferenceCount Header \<noteq> 0 \<and> ReferenceCount Header < 0x10000000")
    case False
    then show ?thesis
      by (auto split: option.splits)
  next
    case True
    then obtain a Header where p: "p = Some a" and h: "Deref s (Some a) = Some Header"
      and c: "ReferenceCount Header \<noteq> 0" "ReferenceCount Header < 0x10000000"
      by auto
    let ?h1 = "Header\<lparr>ReferenceCount := ReferenceCount Header - 1\<rparr>"
    let ?s1 = "StoreObject a ?h1 s"
    from h have "unat (ReferenceCount Header) \<le> RefSum s"
      by (auto simp: Deref_Some RefSum_def intro!: member_le_sum_list
          simp: in_set_conv_nth image_iff intro!: bexI [of _ "Some Header"] exI [of _ a])
    moreover from c have u: "unat (ReferenceCount Header - 1) = unat (ReferenceCount Header) - 1"
      and "0 < unat (ReferenceCount Header)"
      by (simp_all add: unat_minus_one unat_gt_0)
    ultimately have s1: "RefSum ?s1 < RefSum s"
      by (simp add: RefSum_StoreObject [OF h])
    with Suc.prems have n: "RefSum ?s1 < Depth" by simp
    have IH: "\<And>p s. RefSum s < Depth \<Longrightarrow>
      ChalkObjectReleaseReference Depth p s \<noteq> Inl DepthExceeded \<and>
      (\<forall>s1. ChalkObjectReleaseReference Depth p s = Inr s1 \<longrightarrow> RefSum s1 \<le> RefSum s)"
      using Suc.IH by (meson less_imp_le)
    from ChalkGutObject_depth [of Depth "ChalkObjectReleaseReference Depth" ?s1 ?h1, OF IH n]
    have g: "ChalkGutObject (ChalkObjectReleaseReference Depth) ?h1 ?s1 \<noteq> Inl DepthExceeded"
      and g2: "\<And>s2. ChalkGutObject (ChalkObjectReleaseReference Depth) ?h1 ?s1 = Inr s2 \<Longrightarrow>
         RefSum s2 \<le> RefSum ?s1"
      by auto
    have f: "\<And>s2. RefSum (ChalkFree a s2) \<le> RefSum s2"
      by (rule RefSum_ChalkFree)
    have "\<And>s2. RefSum s2 \<le> RefSum ?s1 \<Longrightarrow> RefSum (ChalkFree a s2) < RefSum s"
      using s1 f by (meson le_less_trans order_trans)
    with g2 have g3: "\<And>s2. ChalkGutObject (ChalkObjectReleaseReference Depth) ?h1 ?s1 = Inr s2 \<Longrightarrow>
         RefSum (ChalkFree a s2) < RefSum s"
      by blast
    show ?thesis
    proof (cases "ReferenceCount ?h1 = 0")
      case True
      with p h c g g3 show ?thesis
        by (auto simp: Let_def split: sum.splits)
    next
      case False
      with p h c s1 show ?thesis
        by (auto simp: Let_def)
    qed
  qed
qed

subsection \<open>Setting an element of a dictionary\<close>

lemma DictFields_Inr:
  "DictFields s p = Inr Dict \<longleftrightarrow>
     (\<exists>Header. Deref s p = Some Header \<and> Payload Header = CHALK_DICT_OBJECT Dict)"
  by (auto simp: DictFields_def split: option.splits CHALK_UNION.splits)

lemma Frame_DictFields:
  assumes "Frame s s1" and "DictFields s1 (Some d) = Inr Dict"
  shows "DictFields s (Some d) = Inr Dict"
  using assms unfolding Frame_def DictFields_Inr by metis

lemma SetDictFields_Inr:
  assumes "SetDictFields d Dict s = Inr s1"
  shows "DictFields s1 (Some d) = Inr Dict"
proof -
  from assms obtain Header where h: "Deref s (Some d) = Some Header"
    and s1: "s1 = StoreObject d (Header\<lparr>Payload := CHALK_DICT_OBJECT Dict\<rparr>) s"
    by (auto simp: SetDictFields_def split: option.splits)
  from h have "d < length (Heap s)"
    by (simp add: Deref_Some)
  with s1 show ?thesis
    by (simp add: DictFields_Inr Deref_StoreObject)
qed

lemma ChalkAllocate_Deref: "Deref (snd (ChalkAllocate s)) p = Deref s p"
  by (auto simp: ChalkAllocate_def Deref_def split: list.splits option.splits)

lemma ChalkAllocate_DictFields: "DictFields (snd (ChalkAllocate s)) p = DictFields s p"
  by (simp add: DictFields_def ChalkAllocate_Deref)

lemma ChalkDictNewEntry_Inr:
  assumes "ChalkDictNewEntry d KeyObject s = Inr (Entry, s1)"
    and "DictFields s (Some d) = Inr Dict"
  shows "(Entry = None \<and> DictFields s1 (Some d) = Inr Dict)
       \<or> (Entry = Some (length (EntryList Dict))
          \<and> DictFields s1 (Some d) =
               Inr (Dict\<lparr>EntryList := EntryList Dict @ [\<lparr>Key = KeyObject, Value = None\<rparr>],
                         Generation := Generation Dict + 1,
                         Count := Count Dict + 1\<rparr>))"
proof (cases "fst (ChalkAllocate s)")
  case False
  with assms ChalkAllocate_DictFields [of s "Some d"] show ?thesis
    by (auto simp: ChalkDictNewEntry_def split: prod.splits)
next
  case True
  with assms obtain s2 Dict2 where
    a: "ChalkObjectAddReference KeyObject (snd (ChalkAllocate s)) = Inr s2"
    and d2: "DictFields s2 (Some d) = Inr Dict2"
    and w: "SetDictFields d
              (Dict2\<lparr>EntryList := EntryList Dict2 @ [\<lparr>Key = KeyObject, Value = None\<rparr>],
                     Generation := Generation Dict2 + 1,
                     Count := Count Dict2 + 1\<rparr>) s2 = Inr s1"
    and e: "Entry = Some (length (EntryList Dict2))"
    by (auto simp: ChalkDictNewEntry_def split: prod.splits sum.splits)
  from Frame_DictFields [OF ChalkObjectAddReference_Frame [OF a] d2] assms(2)
  have "Dict2 = Dict"
    by (simp add: ChalkAllocate_DictFields)
  with SetDictFields_Inr [OF w] e show ?thesis by simp
qed

lemma ChalkDictStoreValue_Inr:
  assumes "ChalkDictStoreValue Depth d Entry ValueObject s = Inr s3"
    and "DictFields s (Some d) = Inr Dict"
  shows "Entry < length (EntryList Dict)
       \<and> DictFields s3 (Some d) =
           Inr (Dict\<lparr>EntryList := (EntryList Dict)
                  [Entry := (EntryList Dict ! Entry)\<lparr>Value := ValueObject\<rparr>]\<rparr>)"
proof -
  from assms(1) obtain s1 Dict1 s2 Dict2 where
    a: "ChalkObjectAddReference ValueObject s = Inr s1"
    and d1: "DictFields s1 (Some d) = Inr Dict1"
    and r: "(if Value (EntryList Dict1 ! Entry) \<noteq> None
             then ChalkObjectReleaseReference Depth (Value (EntryList Dict1 ! Entry)) s1
             else Inr s1) = Inr s2"
    and d2: "DictFields s2 (Some d) = Inr Dict2"
    and l: "Entry < length (EntryList Dict2)"
    and w: "SetDictFields d
              (Dict2\<lparr>EntryList := (EntryList Dict2)
                 [Entry := (EntryList Dict2 ! Entry)\<lparr>Value := ValueObject\<rparr>]\<rparr>) s2 = Inr s3"
    by (auto simp: ChalkDictStoreValue_def split: sum.splits if_splits)
  from r have "Frame s1 s2"
    by (auto split: if_splits intro: ChalkObjectReleaseReference_Frame)
  with ChalkObjectAddReference_Frame [OF a] have "Frame s s2"
    by (rule Frame_trans)
  from Frame_DictFields [OF this d2] assms(2) have "Dict2 = Dict" by simp
  with l SetDictFields_Inr [OF w] show ?thesis by simp
qed

text \<open>
  What \<open>ChalkDictSetElement\<close> returns, when it returns: the key is refused, or no
  entry could be allocated for a new key, or a new entry was appended with the value, or
  the entry found took the value.
\<close>

lemma ChalkDictSetElement_Inr:
  assumes r: "ChalkDictSetElement Depth (Some d) KeyObject ValueObject s = Inr (Status, LValue, s1)"
    and d: "DictFields s (Some d) = Inr Dict"
  shows "(Status = EINVAL \<and> LValue = None \<and> s1 = s)
       \<or> (Status = ENOMEM \<and> LValue = None
          \<and> ChalkDictLookup Depth (Some d) KeyObject s = Inr None
          \<and> DictFields s1 (Some d) = Inr Dict)
       \<or> (Status = 0 \<and> LValue = Some (length (EntryList Dict))
          \<and> ChalkDictLookup Depth (Some d) KeyObject s = Inr None
          \<and> DictFields s1 (Some d) =
               Inr (Dict\<lparr>EntryList := EntryList Dict @ [\<lparr>Key = KeyObject, Value = ValueObject\<rparr>],
                         Generation := Generation Dict + 1,
                         Count := Count Dict + 1\<rparr>))
       \<or> (\<exists>Entry. Status = 0 \<and> LValue = Some Entry \<and> Entry < length (EntryList Dict)
          \<and> ChalkDictLookup Depth (Some d) KeyObject s = Inr (Some Entry)
          \<and> DictFields s1 (Some d) =
               Inr (Dict\<lparr>EntryList := (EntryList Dict)
                      [Entry := (EntryList Dict ! Entry)\<lparr>Value := ValueObject\<rparr>]\<rparr>))"
proof (cases "Status = EINVAL \<and> LValue = None \<and> s1 = s")
  case True
  then show ?thesis by simp
next
  case False
  with r obtain Found where f: "ChalkDictLookup Depth (Some d) KeyObject s = Inr Found"
    by (auto simp: ChalkDictSetElement_def split: option.splits if_splits sum.splits)
  show ?thesis
  proof (cases Found)
    case None
    with r f False obtain Entry s2 where
      n: "ChalkDictNewEntry d KeyObject s = Inr (Entry, s2)"
      by (auto simp: ChalkDictSetElement_def split: option.splits if_splits sum.splits)
    show ?thesis
    proof (cases Entry)
      case e: None
      with r f False None n ChalkDictNewEntry_Inr [OF n d] show ?thesis
        by (auto simp: ChalkDictSetElement_def split: option.splits if_splits)
    next
      case e: (Some i)
      with r f False None n have
        v: "ChalkDictStoreValue Depth d i ValueObject s2 = Inr s1"
        and st: "Status = 0" "LValue = Some i"
        by (auto simp: ChalkDictSetElement_def split: option.splits if_splits sum.splits)
      from ChalkDictNewEntry_Inr [OF n d] e have i: "i = length (EntryList Dict)"
        and d2: "DictFields s2 (Some d) =
               Inr (Dict\<lparr>EntryList := EntryList Dict @ [\<lparr>Key = KeyObject, Value = None\<rparr>],
                         Generation := Generation Dict + 1,
                         Count := Count Dict + 1\<rparr>)"
        by auto
      from ChalkDictStoreValue_Inr [OF v d2] i st f None show ?thesis
        by simp
    qed
  next
    case (Some i)
    with r f False have
      v: "ChalkDictStoreValue Depth d i ValueObject s = Inr s1"
      and st: "Status = 0" "LValue = Some i"
      by (auto simp: ChalkDictSetElement_def split: option.splits if_splits sum.splits)
    from ChalkDictStoreValue_Inr [OF v d] st f Some show ?thesis
      by simp
  qed
qed

lemma ChalkCompareObjects_scalar_depth:
  assumes "Deref s RightObject = Some r"
    and "HeaderType r = ChalkObjectInteger \<or> HeaderType r = ChalkObjectString"
  shows "ChalkCompareObjects (Suc Depth) s LeftObject RightObject \<noteq> Inl DepthExceeded"
proof (cases "Deref s LeftObject")
  case None
  then show ?thesis by simp
next
  case (Some l)
  with assms show ?thesis
    by (cases "Payload l"; cases "Payload r")
       (auto simp: HeaderType_def split: option.splits)
qed

lemma FindEntry_depth:
  assumes "\<And>EntryKey. Compare EntryKey \<noteq> Inl DepthExceeded"
  shows "FindEntry Compare Entries Position \<noteq> Inl DepthExceeded"
proof (induction Entries arbitrary: Position)
  case Nil
  then show ?case by simp
next
  case (Cons Entry Entries)
  with assms [of "Key Entry"] show ?case
    by (cases "Compare (Key Entry)") auto
qed

lemma ChalkDictLookup_scalar_depth:
  assumes "Deref s KeyObject = Some KeyHeader"
    and "HeaderType KeyHeader = ChalkObjectInteger \<or> HeaderType KeyHeader = ChalkObjectString"
  shows "ChalkDictLookup (Suc Depth) DictObject KeyObject s \<noteq> Inl DepthExceeded"
proof -
  have "\<And>EntryKey. ChalkCompareObjects (Suc Depth) s EntryKey KeyObject \<noteq> Inl DepthExceeded"
    using assms by (rule ChalkCompareObjects_scalar_depth)
  then have "\<And>Entries. FindEntry (\<lambda>EntryKey. ChalkCompareObjects (Suc Depth) s EntryKey KeyObject)
      Entries 0 \<noteq> Inl DepthExceeded"
    by (rule FindEntry_depth)
  then show ?thesis
    unfolding ChalkDictLookup_def
    by (auto simp del: ChalkCompareObjects.simps split: option.splits CHALK_UNION.splits)
qed

lemma RefSum_ChalkObjectAddReference:
  assumes "ChalkObjectAddReference p s = Inr s1"
  shows "RefSum s1 = RefSum s + 1"
proof -
  from assms obtain a Object where h: "Deref s (Some a) = Some Object"
    and c: "ReferenceCount Object < 0x10000000"
    and s1: "s1 = StoreObject a (Object\<lparr>ReferenceCount := ReferenceCount Object + 1\<rparr>) s"
    by (rule ChalkObjectAddReference_Inr)
  from c have "unat (ReferenceCount Object) < 0x10000000"
    by (simp add: word_less_nat_alt)
  then have "unat (ReferenceCount Object + 1) = unat (ReferenceCount Object) + 1"
    by (simp add: unat_word_ariths)
  with s1 show ?thesis
    by (simp add: RefSum_StoreObject [OF h])
qed

lemma ChalkDictStoreValue_depth:
  assumes "RefSum s + 1 < Depth"
  shows "ChalkDictStoreValue Depth d Entry ValueObject s \<noteq> Inl DepthExceeded"
proof (cases "ChalkObjectAddReference ValueObject s")
  case (Inl e)
  then show ?thesis
    by (auto simp: ChalkDictStoreValue_def ChalkObjectAddReference_def
        split: option.splits if_splits)
next
  case (Inr s1)
  from RefSum_ChalkObjectAddReference [OF Inr] assms have "RefSum s1 < Depth" by simp
  from ChalkObjectReleaseReference_depth [OF this]
  have "\<And>p. ChalkObjectReleaseReference Depth p s1 \<noteq> Inl DepthExceeded"
    by blast
  with Inr show ?thesis
    by (auto simp: ChalkDictStoreValue_def DictFields_def SetDictFields_def
        split: option.splits CHALK_UNION.splits sum.splits if_splits)
qed

lemma ChalkDictStoreValue_new_depth:
  assumes "DictFields s (Some d) = Inr Dict"
    and "Entry < length (EntryList Dict)"
    and "Value (EntryList Dict ! Entry) = None"
  shows "ChalkDictStoreValue Depth d Entry ValueObject s \<noteq> Inl DepthExceeded"
proof (cases "ChalkObjectAddReference ValueObject s")
  case (Inl e)
  then show ?thesis
    by (auto simp: ChalkDictStoreValue_def ChalkObjectAddReference_def
        split: option.splits if_splits)
next
  case (Inr s1)
  show ?thesis
  proof (cases "DictFields s1 (Some d)")
    case (Inl e)
    with Inr show ?thesis
      by (auto simp: ChalkDictStoreValue_def DictFields_def
          split: option.splits CHALK_UNION.splits)
  next
    case d1: (Inr Dict1)
    from Frame_DictFields [OF ChalkObjectAddReference_Frame [OF Inr] d1] assms(1)
    have "Dict1 = Dict" by simp
    with Inr d1 assms(2,3) show ?thesis
      by (auto simp: ChalkDictStoreValue_def SetDictFields_def DictFields_def
          split: option.splits CHALK_UNION.splits sum.splits if_splits)
  qed
qed

lemma ChalkDictNewEntry_depth: "ChalkDictNewEntry d KeyObject s \<noteq> Inl DepthExceeded"
  by (auto simp: ChalkDictNewEntry_def ChalkObjectAddReference_def DictFields_def
      SetDictFields_def
      split: prod.splits sum.splits option.splits if_splits CHALK_UNION.splits bool.splits)

lemma ChalkDictSetElement_depth:
  assumes "RefSum s + 1 < Depth"
  shows "ChalkDictSetElement Depth DictObject KeyObject ValueObject s \<noteq> Inl DepthExceeded"
proof (cases "\<exists>d Header KeyHeader. DictObject = Some d \<and> Deref s DictObject = Some Header
    \<and> HeaderType Header = ChalkObjectDict \<and> Deref s KeyObject = Some KeyHeader
    \<and> (HeaderType KeyHeader = ChalkObjectInteger \<or> HeaderType KeyHeader = ChalkObjectString)")
  case False
  then show ?thesis
    by (auto simp: ChalkDictSetElement_def split: option.splits)
next
  case True
  then obtain d Header KeyHeader where o: "DictObject = Some d"
    and h: "Deref s (Some d) = Some Header" "HeaderType Header = ChalkObjectDict"
    and k: "Deref s KeyObject = Some KeyHeader"
      "HeaderType KeyHeader = ChalkObjectInteger \<or> HeaderType KeyHeader = ChalkObjectString"
    by auto
  from h obtain Dict where d: "DictFields s (Some d) = Inr Dict"
    by (cases "Payload Header") (auto simp: HeaderType_def DictFields_Inr)
  from assms obtain n where n: "Depth = Suc n"
    by (cases Depth) auto
  from k have kn: "KeyObject \<noteq> None"
    by (auto simp: Deref_Some)
  have l: "ChalkDictLookup Depth (Some d) KeyObject s \<noteq> Inl DepthExceeded"
    unfolding n using k by (rule ChalkDictLookup_scalar_depth)
  show ?thesis
  proof (cases "ChalkDictLookup Depth (Some d) KeyObject s")
    case (Inl e)
    with l o h k kn show ?thesis
      by (auto simp: ChalkDictSetElement_def)
  next
    case (Inr Found)
    show ?thesis
    proof (cases Found)
      case (Some Entry)
      with Inr o h k kn ChalkDictStoreValue_depth [OF assms, of d Entry ValueObject]
      show ?thesis
        by (auto simp: ChalkDictSetElement_def split: sum.splits)
    next
      case None
      show ?thesis
      proof (cases "ChalkDictNewEntry d KeyObject s")
        case (Inl e)
        with ChalkDictNewEntry_depth [of d KeyObject s] Inr None o h k kn show ?thesis
          by (auto simp: ChalkDictSetElement_def)
      next
        case n: (Inr r)
        obtain Entry s2 where r: "r = (Entry, s2)" by (cases r)
        show ?thesis
        proof (cases Entry)
          case e: None
          with n r Inr None o h k kn show ?thesis
            by (auto simp: ChalkDictSetElement_def)
        next
          case e: (Some i)
          from ChalkDictNewEntry_Inr [OF n [unfolded r] d] e
          have i: "i = length (EntryList Dict)"
            and d2: "DictFields s2 (Some d) =
               Inr (Dict\<lparr>EntryList := EntryList Dict @ [\<lparr>Key = KeyObject, Value = None\<rparr>],
                         Generation := Generation Dict + 1,
                         Count := Count Dict + 1\<rparr>)"
            by auto
          have "ChalkDictStoreValue Depth d i ValueObject s2 \<noteq> Inl DepthExceeded"
            by (rule ChalkDictStoreValue_new_depth [OF d2]) (simp_all add: i)
          with n r e Inr None o h k kn show ?thesis
            by (auto simp: ChalkDictSetElement_def split: sum.splits)
        qed
      qed
    qed
  qed
qed

subsection \<open>The generation of a dictionary\<close>

text \<open>
  C2. \<open>ChalkDictSetElement\<close> on a live dictionary does not run out of stack when the
  depth allowed exceeds the sum of the reference counts by two, and whenever it returns,
  the dictionary is still live and its generation is the old one plus one (in \<open>UINTN\<close>
  arithmetic) when the call succeeded for a key that had no entry, which is when an entry
  is added, and the old one in every other case: a key that has an entry, a key of a
  kind that is refused, an entry that could not be allocated. The lookup itself,
  \<open>ChalkDictLookup\<close>, returns no state: it only reads. As long as the counter has not
  reached the last value of its type, which would take as many entries, it never
  decreases and a step is at most one.
\<close>

theorem ChalkDictSetElement_Generation:
  assumes "DictFields s (Some d) = Inr Dict"
  shows "(RefSum s + 1 < Depth \<longrightarrow>
            ChalkDictSetElement Depth (Some d) KeyObject ValueObject s \<noteq> Inl DepthExceeded)
       \<and> (\<forall>Status LValue s1.
            ChalkDictSetElement Depth (Some d) KeyObject ValueObject s = Inr (Status, LValue, s1) \<longrightarrow>
            (\<exists>Dict1. DictFields s1 (Some d) = Inr Dict1
               \<and> Generation Dict1 =
                   (if Status = 0 \<and> ChalkDictLookup Depth (Some d) KeyObject s = Inr None
                    then Generation Dict + 1 else Generation Dict)
               \<and> length (EntryList Dict1) =
                   (if Status = 0 \<and> ChalkDictLookup Depth (Some d) KeyObject s = Inr None
                    then length (EntryList Dict) + 1 else length (EntryList Dict))
               \<and> (Generation Dict \<noteq> - 1 \<longrightarrow>
                    unat (Generation Dict) \<le> unat (Generation Dict1)
                    \<and> unat (Generation Dict1) \<le> unat (Generation Dict) + 1)))"
proof (intro conjI allI impI)
  assume "RefSum s + 1 < Depth"
  then show "ChalkDictSetElement Depth (Some d) KeyObject ValueObject s \<noteq> Inl DepthExceeded"
    by (rule ChalkDictSetElement_depth)
next
  fix Status LValue s1
  assume r: "ChalkDictSetElement Depth (Some d) KeyObject ValueObject s = Inr (Status, LValue, s1)"
  have u: "Generation Dict \<noteq> - 1 \<Longrightarrow> unat (Generation Dict + 1) = unat (Generation Dict) + 1"
    using unatSuc [of "Generation Dict"]
    by (simp add: add.commute add_eq_0_iff)
  from ChalkDictSetElement_Inr [OF r assms] u
  show "\<exists>Dict1. DictFields s1 (Some d) = Inr Dict1
               \<and> Generation Dict1 =
                   (if Status = 0 \<and> ChalkDictLookup Depth (Some d) KeyObject s = Inr None
                    then Generation Dict + 1 else Generation Dict)
               \<and> length (EntryList Dict1) =
                   (if Status = 0 \<and> ChalkDictLookup Depth (Some d) KeyObject s = Inr None
                    then length (EntryList Dict) + 1 else length (EntryList Dict))
               \<and> (Generation Dict \<noteq> - 1 \<longrightarrow>
                    unat (Generation Dict) \<le> unat (Generation Dict1)
                    \<and> unat (Generation Dict1) \<le> unat (Generation Dict) + 1)"
    using assms by (elim disjE exE) (auto simp: EINVAL_def ENOMEM_def)
qed

lemma ChalkCompareObjects_numeral:
  "ChalkCompareObjects (numeral k) = ChalkCompareObjects (Suc (pred_numeral k))"
  by (simp add: numeral_eq_Suc)

lemma ChalkObjectReleaseReference_numeral:
  "ChalkObjectReleaseReference (numeral k) = ChalkObjectReleaseReference (Suc (pred_numeral k))"
  by (simp add: numeral_eq_Suc)


lemma DictState_insert:
  "ChalkDictSetElement 20 (Some 3) (Some 4) (Some 5) DictState =
     Inr (0, Some 1, DictState
       \<lparr>Heap := (Heap DictState)
          [3 := Some \<lparr>ReferenceCount = 1, Payload = CHALK_DICT_OBJECT
                 \<lparr>EntryList = [\<lparr>Key = Some 1, Value = Some 2\<rparr>, \<lparr>Key = Some 4, Value = Some 5\<rparr>],
                  Count = 2, Generation = 2\<rparr>\<rparr>,
           4 := Some \<lparr>ReferenceCount = 2, Payload = CHALK_STRING [0x62, 0] 1\<rparr>,
           5 := Some \<lparr>ReferenceCount = 2, Payload = CHALK_INT 2\<rparr>],
        Allocator := [True, True]\<rparr>)"
  by code_simp

lemma DictState_replace:
  "ChalkDictSetElement 20 (Some 3) (Some 6) (Some 5) DictState =
     Inr (0, Some 0, DictState
       \<lparr>Heap := (Heap DictState)
          [3 := Some \<lparr>ReferenceCount = 1, Payload = CHALK_DICT_OBJECT
                 \<lparr>EntryList = [\<lparr>Key = Some 1, Value = Some 5\<rparr>],
                  Count = 1, Generation = 1\<rparr>\<rparr>,
           2 := Some \<lparr>ReferenceCount = 1, Payload = CHALK_INT 1\<rparr>,
           5 := Some \<lparr>ReferenceCount = 2, Payload = CHALK_INT 2\<rparr>]\<rparr>)"
  by code_simp

theorem ChalkDictSetElement_Generation_witness:
  "(\<exists>LValue s1 Dict1.
      ChalkDictSetElement 20 (Some 3) (Some 4) (Some 5) DictState = Inr (0, LValue, s1)
      \<and> DictFields s1 (Some 3) = Inr Dict1 \<and> Generation Dict1 = 2
      \<and> length (EntryList Dict1) = 2)
   \<and> (\<exists>LValue s1 Dict1.
      ChalkDictSetElement 20 (Some 3) (Some 6) (Some 5) DictState = Inr (0, LValue, s1)
      \<and> DictFields s1 (Some 3) = Inr Dict1 \<and> Generation Dict1 = 1
      \<and> length (EntryList Dict1) = 1)
   \<and> (\<exists>LValue s1 Dict1.
      ChalkDictSetElement 20 (Some 3) (Some 3) (Some 5) DictState = Inr (EINVAL, LValue, s1)
      \<and> DictFields s1 (Some 3) = Inr Dict1 \<and> Generation Dict1 = 1
      \<and> length (EntryList Dict1) = 1)"
proof -
  have d: "DictFields DictState (Some 3) =
      Inr \<lparr>EntryList = [\<lparr>Key = Some 1, Value = Some 2\<rparr>], Count = 1, Generation = 1\<rparr>"
    by code_simp
  have l: "ChalkDictLookup 20 (Some 3) (Some 4) DictState = Inr None"
    "ChalkDictLookup 20 (Some 3) (Some 6) DictState = Inr (Some 0)"
    by code_simp+
  obtain r1 where r1: "ChalkDictSetElement 20 (Some 3) (Some 4) (Some 5) DictState = Inr (0, r1)"
    using DictState_insert by blast
  obtain r2 where r2: "ChalkDictSetElement 20 (Some 3) (Some 6) (Some 5) DictState = Inr (0, r2)"
    using DictState_replace by blast
  have "ChalkDictSetElement 20 (Some 3) (Some 3) (Some 5) DictState = Inr (EINVAL, None, DictState)"
    by code_simp
  then obtain r3 where
    r3: "ChalkDictSetElement 20 (Some 3) (Some 3) (Some 5) DictState = Inr (EINVAL, r3)"
    by blast
  from ChalkDictSetElement_Generation [OF d, of 20 "Some 4" "Some 5"] r1 l(1)
  have 1: "\<exists>LValue s1 Dict1.
      ChalkDictSetElement 20 (Some 3) (Some 4) (Some 5) DictState = Inr (0, LValue, s1)
      \<and> DictFields s1 (Some 3) = Inr Dict1 \<and> Generation Dict1 = 2
      \<and> length (EntryList Dict1) = 2"
    by (cases r1) auto
  from ChalkDictSetElement_Generation [OF d, of 20 "Some 6" "Some 5"] r2 l(2)
  have 2: "\<exists>LValue s1 Dict1.
      ChalkDictSetElement 20 (Some 3) (Some 6) (Some 5) DictState = Inr (0, LValue, s1)
      \<and> DictFields s1 (Some 3) = Inr Dict1 \<and> Generation Dict1 = 1
      \<and> length (EntryList Dict1) = 1"
    by (cases r2) auto
  from ChalkDictSetElement_Generation [OF d, of 20 "Some 3" "Some 5"] r3
  have 3: "\<exists>LValue s1 Dict1.
      ChalkDictSetElement 20 (Some 3) (Some 3) (Some 5) DictState = Inr (EINVAL, LValue, s1)
      \<and> DictFields s1 (Some 3) = Inr Dict1 \<and> Generation Dict1 = 1
      \<and> length (EntryList Dict1) = 1"
    by (cases r3) (auto simp: EINVAL_def)
  from 1 2 3 show ?thesis by blast
qed

subsection \<open>Iterating over a dictionary that changes\<close>

lemma ChalkDictIterate_stale:
  assumes "DictFields s (Some d) = Inr Dict"
    and "IteratorGeneration Iterator \<noteq> Generation Dict"
  shows "ChalkDictIterate (Some d) (Some Iterator) Iteration s =
           Inr (ERANGE, Some Iterator, Iteration, s)"
  using assms by (auto simp: ChalkDictIterate_def DictFields_Inr)

lemma ChalkDictIterate_current:
  assumes "DictFields s (Some d) = Inr Dict"
    and "IteratorGeneration Iterator = Generation Dict"
  shows "ChalkDictIterate (Some d) (Some Iterator) Iteration s =
           (case Next Iterator of
              None \<Rightarrow> Inr (0, Some Iterator, None, s)
            | Some Entry \<Rightarrow>
                if Entry \<ge> length (EntryList Dict) then Inl MemoryFault
                else Inr (0,
                       Some (Iterator\<lparr>Next :=
                         (if Suc Entry = length (EntryList Dict) then None
                          else Some (Suc Entry))\<rparr>),
                       Key (EntryList Dict ! Entry),
                       s))"
  using assms by (auto simp: ChalkDictIterate_def DictFields_Inr)

lemma ChalkDictInitializeIterator_Inr:
  assumes "ChalkDictInitializeIterator (Some d) Context s = Inr (0, Some Iterator, s1)"
  shows "\<exists>Dict. DictFields s (Some d) = Inr Dict \<and> DictFields s1 (Some d) = Inr Dict
           \<and> IteratorGeneration Iterator = Generation Dict
           \<and> Next Iterator = (if EntryList Dict \<noteq> [] then Some 0 else None)"
proof -
  from assms obtain Dict where d: "DictFields s (Some d) = Inr Dict"
    by (auto simp: ChalkDictInitializeIterator_def DictFields_Inr
        split: option.splits CHALK_UNION.splits)
  with assms have a: "fst (ChalkAllocate s)" and s1: "s1 = snd (ChalkAllocate s)"
    by (auto simp: ChalkDictInitializeIterator_def DictFields_Inr ENOMEM_def
        split: prod.splits bool.splits)
  from d s1 have d1: "DictFields s1 (Some d) = Inr Dict"
    by (simp add: ChalkAllocate_DictFields)
  from d assms a s1 have "IteratorGeneration Iterator = Generation Dict
      \<and> Next Iterator = (if EntryList Dict \<noteq> [] then Some 0 else None)"
    by (auto simp: ChalkDictInitializeIterator_def DictFields_Inr ENOMEM_def
        split: prod.splits bool.splits)
  with d d1 show ?thesis by blast
qed

text \<open>
  C1. Take a live dictionary and an iterator of it whose generation is the dictionary's
  (as \<open>ChalkDictInitializeIterator\<close> makes it) and whose next entry, if any, is an
  entry of the dictionary. After a successful \<open>ChalkDictSetElement\<close> under a key that
  had no entry, the next step of the iteration returns \<open>ERANGE\<close>; the iterator, what
  \<open>Iteration\<close> points to and the state, the dictionary in it, are as they were. After a
  \<open>ChalkDictSetElement\<close> under a key that has an entry, the next step returns 0 and
  yields the key of the iterator's next entry (NULL at the end), exactly as it would
  have before the value was replaced. In any state, a step with an iterator whose
  generation is not the dictionary's returns \<open>ERANGE\<close> and changes nothing.
\<close>

theorem ChalkDictIterate_Generation:
  assumes "DictFields s (Some d) = Inr Dict"
    and "IteratorGeneration Iterator = Generation Dict"
    and "case Next Iterator of None \<Rightarrow> True | Some Entry \<Rightarrow> Entry < length (EntryList Dict)"
    and "ChalkDictSetElement Depth (Some d) KeyObject ValueObject s = Inr (0, LValue, s1)"
  shows "(ChalkDictLookup Depth (Some d) KeyObject s = Inr None \<longrightarrow>
            ChalkDictIterate (Some d) (Some Iterator) Iteration s1 =
              Inr (ERANGE, Some Iterator, Iteration, s1))
       \<and> (\<forall>Entry. ChalkDictLookup Depth (Some d) KeyObject s = Inr (Some Entry) \<longrightarrow>
            ChalkDictIterate (Some d) (Some Iterator) Iteration s1 =
                Inr (0,
                     Some (Iterator\<lparr>Next :=
                       (case Next Iterator of
                          None \<Rightarrow> None
                        | Some Entry \<Rightarrow>
                            if Suc Entry = length (EntryList Dict) then None
                            else Some (Suc Entry))\<rparr>),
                     (case Next Iterator of
                        None \<Rightarrow> None
                      | Some Entry \<Rightarrow> Key (EntryList Dict ! Entry)),
                     s1)
            \<and> map_sum id (\<lambda>(Status, Context, Iteration, s). (Status, Context, Iteration))
                 (ChalkDictIterate (Some d) (Some Iterator) Iteration s1)
              = map_sum id (\<lambda>(Status, Context, Iteration, s). (Status, Context, Iteration))
                 (ChalkDictIterate (Some d) (Some Iterator) Iteration s))
       \<and> (\<forall>s2 Dict2 Iterator2.
            DictFields s2 (Some d) = Inr Dict2 \<and> IteratorGeneration Iterator2 \<noteq> Generation Dict2 \<longrightarrow>
            ChalkDictIterate (Some d) (Some Iterator2) Iteration s2 =
              Inr (ERANGE, Some Iterator2, Iteration, s2))"
proof (intro conjI allI impI)
  assume "ChalkDictLookup Depth (Some d) KeyObject s = Inr None"
  with ChalkDictSetElement_Inr [OF assms(4,1)]
  have "DictFields s1 (Some d) =
          Inr (Dict\<lparr>EntryList := EntryList Dict @ [\<lparr>Key = KeyObject, Value = ValueObject\<rparr>],
                    Generation := Generation Dict + 1,
                    Count := Count Dict + 1\<rparr>)"
    by (auto simp: EINVAL_def ENOMEM_def)
  then show "ChalkDictIterate (Some d) (Some Iterator) Iteration s1 =
      Inr (ERANGE, Some Iterator, Iteration, s1)"
    by (rule ChalkDictIterate_stale) (simp add: assms(2))
next
  fix Entry
  assume f: "ChalkDictLookup Depth (Some d) KeyObject s = Inr (Some Entry)"
  with ChalkDictSetElement_Inr [OF assms(4,1)]
  have e: "Entry < length (EntryList Dict)"
    and d1: "DictFields s1 (Some d) =
          Inr (Dict\<lparr>EntryList := (EntryList Dict)
                 [Entry := (EntryList Dict ! Entry)\<lparr>Value := ValueObject\<rparr>]\<rparr>)"
    by (auto simp: EINVAL_def ENOMEM_def)
  have k: "\<And>n. n < length (EntryList Dict) \<Longrightarrow>
      Key ((EntryList Dict)[Entry := (EntryList Dict ! Entry)\<lparr>Value := ValueObject\<rparr>] ! n)
        = Key (EntryList Dict ! n)"
    using e by (simp add: nth_list_update)
  show i: "ChalkDictIterate (Some d) (Some Iterator) Iteration s1 =
      Inr (0,
           Some (Iterator\<lparr>Next :=
             (case Next Iterator of
                None \<Rightarrow> None
              | Some Entry \<Rightarrow>
                  if Suc Entry = length (EntryList Dict) then None
                  else Some (Suc Entry))\<rparr>),
           (case Next Iterator of
              None \<Rightarrow> None
            | Some Entry \<Rightarrow> Key (EntryList Dict ! Entry)),
           s1)"
    using assms(3) k
    by (subst ChalkDictIterate_current [OF d1]) (auto simp: assms(2) split: option.splits)
  show "map_sum id (\<lambda>(Status, Context, Iteration, s). (Status, Context, Iteration))
          (ChalkDictIterate (Some d) (Some Iterator) Iteration s1)
        = map_sum id (\<lambda>(Status, Context, Iteration, s). (Status, Context, Iteration))
          (ChalkDictIterate (Some d) (Some Iterator) Iteration s)"
    using assms(3)
    by (subst i, subst ChalkDictIterate_current [OF assms(1,2)]) (auto split: option.splits)
next
  fix s2 and Dict2 :: CHALK_DICT and Iterator2 :: CHALK_DICT_ITERATOR
  assume "DictFields s2 (Some d) = Inr Dict2 \<and> IteratorGeneration Iterator2 \<noteq> Generation Dict2"
  then show "ChalkDictIterate (Some d) (Some Iterator2) Iteration s2 =
      Inr (ERANGE, Some Iterator2, Iteration, s2)"
    by (auto intro: ChalkDictIterate_stale)
qed

theorem ChalkDictIterate_Generation_witness:
  "\<exists>Iterator s.
     ChalkDictInitializeIterator (Some 3) None DictState = Inr (0, Some Iterator, s)
     \<and> (\<exists>LValue s1.
          ChalkDictSetElement 20 (Some 3) (Some 4) (Some 5) s = Inr (0, LValue, s1)
          \<and> ChalkDictIterate (Some 3) (Some Iterator) None s1 =
              Inr (ERANGE, Some Iterator, None, s1))
     \<and> (\<exists>LValue s1.
          ChalkDictSetElement 20 (Some 3) (Some 6) (Some 5) s = Inr (0, LValue, s1)
          \<and> ChalkDictIterate (Some 3) (Some Iterator) None s1 =
              Inr (0, Some (Iterator\<lparr>Next := None\<rparr>), Some 1, s1))"
proof -
  let ?i = "\<lparr>Next = Some 0, IteratorGeneration = 1\<rparr>"
  let ?s = "DictState\<lparr>Allocator := [True, True]\<rparr>"
  let ?d = "\<lparr>EntryList = [\<lparr>Key = Some 1, Value = Some 2\<rparr>], Count = 1, Generation = 1\<rparr>"
  have i: "ChalkDictInitializeIterator (Some 3) None DictState = Inr (0, Some ?i, ?s)"
    by code_simp
  have d: "DictFields ?s (Some 3) = Inr ?d"
    by code_simp
  have g: "IteratorGeneration ?i = Generation ?d"
    by simp
  have n: "case Next ?i of None \<Rightarrow> True | Some Entry \<Rightarrow> Entry < length (EntryList ?d)"
    by simp
  have l: "ChalkDictLookup 20 (Some 3) (Some 4) ?s = Inr None"
    "ChalkDictLookup 20 (Some 3) (Some 6) ?s = Inr (Some 0)"
    by code_simp+
  have "case ChalkDictSetElement 20 (Some 3) (Some 4) (Some 5) ?s of
          Inl e \<Rightarrow> False | Inr (Status, LValue, s1) \<Rightarrow> Status = 0"
    by code_simp
  then obtain LValue1 s1 where
    r1: "ChalkDictSetElement 20 (Some 3) (Some 4) (Some 5) ?s = Inr (0, LValue1, s1)"
    by (auto split: sum.splits)
  have "case ChalkDictSetElement 20 (Some 3) (Some 6) (Some 5) ?s of
          Inl e \<Rightarrow> False | Inr (Status, LValue, s1) \<Rightarrow> Status = 0"
    by code_simp
  then obtain LValue2 s2 where
    r2: "ChalkDictSetElement 20 (Some 3) (Some 6) (Some 5) ?s = Inr (0, LValue2, s2)"
    by (auto split: sum.splits)
  from ChalkDictIterate_Generation [OF d g n r1, of None] l(1)
  have 1: "ChalkDictIterate (Some 3) (Some ?i) None s1 = Inr (ERANGE, Some ?i, None, s1)"
    by blast
  from ChalkDictIterate_Generation [OF d g n r2, of None] l(2)
  have 2: "ChalkDictIterate (Some 3) (Some ?i) None s2 =
      Inr (0, Some (?i\<lparr>Next := None\<rparr>), Some 1, s2)"
    by simp
  from i r1 r2 1 2 show ?thesis
    by blast
qed

subsection \<open>The built-in get function\<close>

lemma ChalkCreateNull_Inr:
  assumes "Deref s (Some ChalkNull) = Some NullHeader"
    and "ReferenceCount NullHeader \<noteq> 0"
    and "ReferenceCount NullHeader < 0x10000000"
  shows "ChalkCreateNull s =
           Inr (Some ChalkNull,
                StoreObject ChalkNull
                  (NullHeader\<lparr>ReferenceCount := ReferenceCount NullHeader + 1\<rparr>) s)"
  using assms by (simp add: ChalkCreateNull_def ChalkObjectAddReference_def)

text \<open>
  The built-in get function, for an object and a key that are not NULL, the object
  live, and the null object live with a reference count that can take one more. When
  the object is of kind null, or a dictionary in which \<open>ChalkDictLookup\<close> finds no
  entry, it returns 0 and the result is the null object, which has one reference more;
  nothing else has changed. The status is \<open>EINVAL\<close> exactly when the kind of the
  object is neither dictionary nor null, and then nothing is written. Which keys
  \<open>ChalkDictLookup\<close> finds is the subject of the last section.
\<close>

lemma ChalkFunctionGet_status:
  assumes "Deref s Object = Some Header"
    and "KeyObject \<noteq> None"
    and "Deref s (Some ChalkNull) = Some NullHeader"
    and "ReferenceCount NullHeader \<noteq> 0"
    and "ReferenceCount NullHeader < 0x10000000"
  shows "(HeaderType Header = ChalkObjectNull
          \<or> HeaderType Header = ChalkObjectDict
             \<and> ChalkDictLookup Depth Object KeyObject s = Inr None \<longrightarrow>
            ChalkFunctionGet Depth Object KeyObject ReturnValue s =
              Inr (0, Some ChalkNull,
                   StoreObject ChalkNull
                     (NullHeader\<lparr>ReferenceCount := ReferenceCount NullHeader + 1\<rparr>) s))
       \<and> ((\<exists>Result s1. ChalkFunctionGet Depth Object KeyObject ReturnValue s =
                           Inr (EINVAL, Result, s1))
            \<longleftrightarrow> HeaderType Header \<noteq> ChalkObjectDict \<and> HeaderType Header \<noteq> ChalkObjectNull)
       \<and> (HeaderType Header \<noteq> ChalkObjectDict \<and> HeaderType Header \<noteq> ChalkObjectNull \<longrightarrow>
            ChalkFunctionGet Depth Object KeyObject ReturnValue s = Inr (EINVAL, ReturnValue, s))"
proof -
  from assms(1) have o: "Object \<noteq> None"
    by (auto simp: Deref_Some)
  note n = ChalkCreateNull_Inr [OF assms(3-5)]
  have 1: "HeaderType Header = ChalkObjectNull
          \<or> HeaderType Header = ChalkObjectDict
             \<and> ChalkDictLookup Depth Object KeyObject s = Inr None \<longrightarrow>
            ChalkFunctionGet Depth Object KeyObject ReturnValue s =
              Inr (0, Some ChalkNull,
                   StoreObject ChalkNull
                     (NullHeader\<lparr>ReferenceCount := ReferenceCount NullHeader + 1\<rparr>) s)"
    using assms(1,2) o n by (auto simp: ChalkFunctionGet_def)
  have 3: "HeaderType Header \<noteq> ChalkObjectDict \<and> HeaderType Header \<noteq> ChalkObjectNull \<longrightarrow>
            ChalkFunctionGet Depth Object KeyObject ReturnValue s = Inr (EINVAL, ReturnValue, s)"
    using assms(1,2) o by (auto simp: ChalkFunctionGet_def)
  have 2: "HeaderType Header = ChalkObjectDict \<or> HeaderType Header = ChalkObjectNull \<Longrightarrow>
      ChalkFunctionGet Depth Object KeyObject ReturnValue s = Inr (EINVAL, Result, s1) \<Longrightarrow> False"
    for Result s1
    using assms(1,2) o
    by (auto simp: ChalkFunctionGet_def EINVAL_def ChalkCreateNull_def
        split: sum.splits option.splits if_splits)
  from 1 2 3 show ?thesis
    by blast
qed

lemma ChalkFunctionGet_status_example:
  "ChalkFunctionGet 20 (Some 0) (Some 4) None DictState =
     Inr (0, Some 0, StoreObject 0 \<lparr>ReferenceCount = 2, Payload = CHALK_NULL\<rparr> DictState)
   \<and> ChalkFunctionGet 20 (Some 3) (Some 4) None DictState =
     Inr (0, Some 0, StoreObject 0 \<lparr>ReferenceCount = 2, Payload = CHALK_NULL\<rparr> DictState)
   \<and> ChalkFunctionGet 20 (Some 2) (Some 4) None DictState = Inr (EINVAL, None, DictState)"
proof -
  have k: "Some (4::nat) \<noteq> None"
    by simp
  have n: "Deref DictState (Some ChalkNull) = Some \<lparr>ReferenceCount = 1, Payload = CHALK_NULL\<rparr>"
    "ReferenceCount \<lparr>ReferenceCount = 1, Payload = CHALK_NULL\<rparr> \<noteq> 0"
    "ReferenceCount \<lparr>ReferenceCount = 1, Payload = CHALK_NULL\<rparr> < 0x10000000"
    by (simp_all add: DictState_def Deref_def ChalkNull_def)
  have o: "Deref DictState (Some 0) = Some \<lparr>ReferenceCount = 1, Payload = CHALK_NULL\<rparr>"
    "Deref DictState (Some 3) = Some \<lparr>ReferenceCount = 1, Payload = CHALK_DICT_OBJECT
       \<lparr>EntryList = [\<lparr>Key = Some 1, Value = Some 2\<rparr>], Count = 1, Generation = 1\<rparr>\<rparr>"
    "Deref DictState (Some 2) = Some \<lparr>ReferenceCount = 2, Payload = CHALK_INT 1\<rparr>"
    by (simp_all add: DictState_def Deref_def)
  have l: "ChalkDictLookup 20 (Some 3) (Some 4) DictState = Inr None"
    by code_simp
  from ChalkFunctionGet_status [OF o(1) k n, of 20 None]
    ChalkFunctionGet_status [OF o(2) k n, of 20 None]
    ChalkFunctionGet_status [OF o(3) k n, of 20 None] l
  show ?thesis
    by (simp add: HeaderType_def ChalkNull_def)
qed

subsection \<open>Copying a list\<close>

lemma AddReferences_Inr:
  assumes "\<forall>a. Some a \<in> set Array \<longrightarrow>
      (\<exists>Element. Deref s (Some a) = Some Element \<and> ReferenceCount Element \<noteq> 0
         \<and> unat (ReferenceCount Element) + count_list Array (Some a) \<le> 0x10000000)"
  shows "\<exists>s1. AddReferences Array s = Inr s1 \<and> Allocator s1 = Allocator s
      \<and> length (Heap s1) = length (Heap s)
      \<and> (\<forall>p. Deref s1 p =
            map_option (\<lambda>Element. Element\<lparr>ReferenceCount :=
              ReferenceCount Element + of_nat (count_list Array p)\<rparr>) (Deref s p))"
  using assms
proof (induction Array arbitrary: s)
  case Nil
  then show ?case
    by (simp add: option.map_ident)
next
  case (Cons x Array)
  show ?case
  proof (cases x)
    case None
    have "\<forall>a. Some a \<in> set Array \<longrightarrow>
      (\<exists>Element. Deref s (Some a) = Some Element \<and> ReferenceCount Element \<noteq> 0
         \<and> unat (ReferenceCount Element) + count_list Array (Some a) \<le> 0x10000000)"
      using Cons.prems None by auto
    from Cons.IH [OF this] obtain s1 where s1: "AddReferences Array s = Inr s1"
      "Allocator s1 = Allocator s" "length (Heap s1) = length (Heap s)"
      "\<forall>p. Deref s1 p =
            map_option (\<lambda>Element. Element\<lparr>ReferenceCount :=
              ReferenceCount Element + of_nat (count_list Array p)\<rparr>) (Deref s p)"
      by blast
    have "Deref s1 p =
            map_option (\<lambda>Element. Element\<lparr>ReferenceCount :=
              ReferenceCount Element + of_nat (count_list (x # Array) p)\<rparr>) (Deref s p)" for p
      using s1(4) None by (cases p) auto
    with s1 None show ?thesis
      by auto
  next
    case (Some a)
    with Cons.prems obtain Element where e: "Deref s (Some a) = Some Element"
      "ReferenceCount Element \<noteq> 0"
      "unat (ReferenceCount Element) + count_list (x # Array) (Some a) \<le> 0x10000000"
      by auto
    from e(3) Some have u: "unat (ReferenceCount Element) < 0x10000000"
      by simp
    then have lt: "ReferenceCount Element < 0x10000000"
      by (simp add: word_less_nat_alt)
    from u have u1: "unat (ReferenceCount Element + 1) = unat (ReferenceCount Element) + 1"
      by (simp add: unat_word_ariths)
    then have nz: "ReferenceCount Element + 1 \<noteq> 0"
      by (metis add_is_0 unat_0 zero_neq_one)
    let ?e = "Element\<lparr>ReferenceCount := ReferenceCount Element + 1\<rparr>"
    let ?s = "StoreObject a ?e s"
    have a: "ChalkObjectAddReference (Some a) s = Inr ?s"
      using e lt by (simp add: ChalkObjectAddReference_def)
    have al: "a < length (Heap s)"
      using e(1) by (simp add: Deref_Some)
    have "\<forall>b. Some b \<in> set Array \<longrightarrow>
      (\<exists>Element1. Deref ?s (Some b) = Some Element1 \<and> ReferenceCount Element1 \<noteq> 0
         \<and> unat (ReferenceCount Element1) + count_list Array (Some b) \<le> 0x10000000)"
    proof (intro allI impI)
      fix b
      assume b: "Some b \<in> set Array"
      show "\<exists>Element1. Deref ?s (Some b) = Some Element1 \<and> ReferenceCount Element1 \<noteq> 0
         \<and> unat (ReferenceCount Element1) + count_list Array (Some b) \<le> 0x10000000"
      proof (cases "b = a")
        case True
        with e(3) Some u1 nz al show ?thesis
          by (simp add: Deref_StoreObject)
      next
        case False
        with Cons.prems b Some show ?thesis
          by (auto simp: Deref_StoreObject)
      qed
    qed
    from Cons.IH [OF this] obtain s1 where s1: "AddReferences Array ?s = Inr s1"
      "Allocator s1 = Allocator ?s" "length (Heap s1) = length (Heap ?s)"
      "\<forall>p. Deref s1 p =
            map_option (\<lambda>Element. Element\<lparr>ReferenceCount :=
              ReferenceCount Element + of_nat (count_list Array p)\<rparr>) (Deref ?s p)"
      by blast
    have "Deref s1 p =
            map_option (\<lambda>Element. Element\<lparr>ReferenceCount :=
              ReferenceCount Element + of_nat (count_list (x # Array) p)\<rparr>) (Deref s p)" for p
      using s1(4) Some e(1) al by (auto simp: Deref_StoreObject)
    with s1 a Some show ?thesis
      by (auto simp: StoreObject_def)
  qed
qed

text \<open>
  C7. Copying a live list, when the allocator grants two requests, its count fits a
  \<open>ULONG\<close>, and every element can take as many references more as it has slots in
  the list: the copy is a new object, at an address that was not in use, with one
  reference and an array equal to the source's, so slot by slot the same pointer, holes
  where the source has holes. Every object that was there keeps its fields, and its
  reference count has gone up by the number of slots of the source that point to it.
  A lookup in the copy is the same as the lookup in the source, at every index: what is
  reached through a slot of the copy is the object reached through the source, whatever
  is done to it.
\<close>

theorem ChalkObjectCopy_list:
  assumes "Deref s Source = Some Object"
    and "Payload Object = CHALK_LIST Array"
    and "length Array < 2 ^ 32"
    and "Allocator s = True # True # Rest"
    and "\<forall>a. Some a \<in> set Array \<longrightarrow>
      (\<exists>Element. Deref s (Some a) = Some Element \<and> ReferenceCount Element \<noteq> 0
         \<and> unat (ReferenceCount Element) + count_list Array (Some a) \<le> 0x10000000)"
  shows "\<exists>s1. ChalkObjectCopy Depth Source s = Inr (Some (length (Heap s)), s1)
      \<and> Source \<noteq> Some (length (Heap s))
      \<and> Deref s (Some (length (Heap s))) = None
      \<and> Deref s1 (Some (length (Heap s))) =
          Some \<lparr>ReferenceCount = 1, Payload = CHALK_LIST Array\<rparr>
      \<and> (\<forall>p. p \<noteq> Some (length (Heap s)) \<longrightarrow>
            Deref s1 p =
              map_option (\<lambda>Element. Element\<lparr>ReferenceCount :=
                ReferenceCount Element + of_nat (count_list Array p)\<rparr>) (Deref s p))
      \<and> (\<forall>Index. ChalkListLookup (Some (length (Heap s))) Index s1 =
                   ChalkListLookup Source Index s1)"
proof -
  let ?new = "length (Heap s)"
  let ?obj = "\<lparr>ReferenceCount = 1, Payload = CHALK_LIST Array\<rparr>"
  have src: "Source \<noteq> Some ?new" and fresh: "Deref s (Some ?new) = None"
    using assms(1) by (auto simp: Deref_Some Deref_def)
  have "\<exists>s1. ChalkCreateList (Some Array) (of_nat (length Array)) s = Inr (Some ?new, s1)
      \<and> Deref s1 (Some ?new) = Some ?obj
      \<and> (\<forall>p. p \<noteq> Some ?new \<longrightarrow>
            Deref s1 p =
              map_option (\<lambda>Element. Element\<lparr>ReferenceCount :=
                ReferenceCount Element + of_nat (count_list Array p)\<rparr>) (Deref s p))"
  proof (cases "Array = []")
    case True
    with assms(4) show ?thesis
      by (auto simp: ChalkCreateList_def ChalkAllocate_def NewObject_def Deref_def
          option.map_ident nth_append split: option.splits)
  next
    case False
    let ?s3 = "s\<lparr>Allocator := Rest, Heap := Heap s @ [Some ?obj]\<rparr>"
    have sz: "unat (of_nat (length Array) :: 32 word) = length Array"
      using assms(3) by (simp add: unat_of_nat)
    with False have nz: "(of_nat (length Array) :: 32 word) \<noteq> 0"
      by (metis length_0_conv unat_0)
    have c: "ChalkCreateList (Some Array) (of_nat (length Array)) s =
        (case AddReferences Array ?s3 of Inl e \<Rightarrow> Inl e | Inr s4 \<Rightarrow> Inr (Some ?new, s4))"
      using assms(4) sz nz
      by (simp add: ChalkCreateList_def ChalkAllocate_def NewObject_def split: sum.splits)
    have old: "Deref ?s3 p = (if p = Some ?new then Some ?obj else Deref s p)" for p
      by (auto simp: Deref_def nth_append split: option.splits)
    have "\<forall>a. Some a \<in> set Array \<longrightarrow>
      (\<exists>Element. Deref ?s3 (Some a) = Some Element \<and> ReferenceCount Element \<noteq> 0
         \<and> unat (ReferenceCount Element) + count_list Array (Some a) \<le> 0x10000000)"
      using assms(5) fresh by (auto simp: old)
    from AddReferences_Inr [OF this] obtain s1 where s1: "AddReferences Array ?s3 = Inr s1"
      and d: "\<forall>p. Deref s1 p =
            map_option (\<lambda>Element. Element\<lparr>ReferenceCount :=
              ReferenceCount Element + of_nat (count_list Array p)\<rparr>) (Deref ?s3 p)"
      by blast
    have "Some ?new \<notin> set Array"
      using assms(5) fresh by auto
    then have "count_list Array (Some ?new) = 0"
      by (simp add: count_list_0_iff)
    with d have "Deref s1 (Some ?new) = Some ?obj"
      by (simp add: old)
    with c s1 d show ?thesis
      by (auto simp: old)
  qed
  then obtain s1 where c: "ChalkCreateList (Some Array) (of_nat (length Array)) s =
        Inr (Some ?new, s1)"
    and n: "Deref s1 (Some ?new) = Some ?obj"
    and o: "\<forall>p. p \<noteq> Some ?new \<longrightarrow>
            Deref s1 p =
              map_option (\<lambda>Element. Element\<lparr>ReferenceCount :=
                ReferenceCount Element + of_nat (count_list Array p)\<rparr>) (Deref s p)"
    by blast
  from assms(1,2) c have copy: "ChalkObjectCopy Depth Source s = Inr (Some ?new, s1)"
    by (simp add: ChalkObjectCopy_def)
  from o src assms(1,2) obtain Object1 where "Deref s1 Source = Some Object1"
    "Payload Object1 = CHALK_LIST Array"
    by auto
  with n have "ChalkListLookup (Some ?new) Index s1 = ChalkListLookup Source Index s1" for Index
    by (simp add: ChalkListLookup_def)
  with copy src fresh n o show ?thesis
    by blast
qed

theorem ChalkObjectCopy_list_witness:
  "\<exists>s1. ChalkObjectCopy 20 (Some 3) NestedState = Inr (Some 5, s1)
     \<and> Deref s1 (Some 5) =
         Some \<lparr>ReferenceCount = 1, Payload = CHALK_LIST [Some 2, None, Some 1]\<rparr>
     \<and> Deref s1 (Some 3) =
         Some \<lparr>ReferenceCount = 1, Payload = CHALK_LIST [Some 2, None, Some 1]\<rparr>
     \<and> Deref s1 (Some 2) = Some \<lparr>ReferenceCount = 3, Payload = CHALK_LIST [Some 1]\<rparr>
     \<and> Deref s1 (Some 1) = Some \<lparr>ReferenceCount = 4, Payload = CHALK_INT 7\<rparr>
     \<and> Deref s1 (Some 4) = Some \<lparr>ReferenceCount = 1, Payload = CHALK_INT 9\<rparr>
     \<and> (\<forall>Index. ChalkListLookup (Some 5) Index s1 = ChalkListLookup (Some 3) Index s1)
     \<and> (case ChalkListLookup (Some 3) 0 s1 of
           Inl e \<Rightarrow> False
         | Inr (Nested, s2) \<Rightarrow>
             Nested = Some 2
             \<and> (case ChalkListSetElement 20 Nested 0 (Some 4) s2 of
                   Inl e \<Rightarrow> False
                 | Inr (Status, s3) \<Rightarrow>
                     Status = 0
                     \<and> (case ChalkListLookup (Some 5) 0 s3 of
                           Inl e \<Rightarrow> False
                         | Inr (Copied, s4) \<Rightarrow>
                             Copied = Nested
                             \<and> (case ChalkListLookup Copied 0 s4 of
                                   Inl e \<Rightarrow> False
                                 | Inr (Element, s5) \<Rightarrow> Element = Some 4))))"
proof -
  let ?a = "[Some 2, None, Some (1::nat)]"
  let ?s1 = "\<lparr>Heap =
        [Some \<lparr>ReferenceCount = 1, Payload = CHALK_NULL\<rparr>,
         Some \<lparr>ReferenceCount = 4, Payload = CHALK_INT 7\<rparr>,
         Some \<lparr>ReferenceCount = 3, Payload = CHALK_LIST [Some 1]\<rparr>,
         Some \<lparr>ReferenceCount = 1, Payload = CHALK_LIST ?a\<rparr>,
         Some \<lparr>ReferenceCount = 1, Payload = CHALK_INT 9\<rparr>,
         Some \<lparr>ReferenceCount = 1, Payload = CHALK_LIST ?a\<rparr>],
      Allocator = [True, True]\<rparr>"
  have h: "Deref NestedState (Some 3) = Some \<lparr>ReferenceCount = 1, Payload = CHALK_LIST ?a\<rparr>"
    "Payload \<lparr>ReferenceCount = 1, Payload = CHALK_LIST ?a\<rparr> = CHALK_LIST ?a"
    "length ?a < 2 ^ 32"
    "Allocator NestedState = True # True # [True, True]"
    by (simp_all add: NestedState_def Deref_def)
  have r: "\<forall>a. Some a \<in> set ?a \<longrightarrow>
      (\<exists>Element. Deref NestedState (Some a) = Some Element \<and> ReferenceCount Element \<noteq> 0
         \<and> unat (ReferenceCount Element) + count_list ?a (Some a) \<le> 0x10000000)"
    by (auto simp: NestedState_def Deref_def)
  have n: "length (Heap NestedState) = 5"
    by (simp add: NestedState_def)
  from ChalkObjectCopy_list [OF h r, of 20] obtain s1 where
    c: "ChalkObjectCopy 20 (Some 3) NestedState = Inr (Some 5, s1)"
    and l: "\<forall>Index. ChalkListLookup (Some 5) Index s1 = ChalkListLookup (Some 3) Index s1"
    unfolding n by blast
  have "ChalkObjectCopy 20 (Some 3) NestedState = Inr (Some 5, ?s1)"
    by code_simp
  with c have s1: "s1 = ?s1"
    by simp
  have d: "Deref ?s1 (Some 5) = Some \<lparr>ReferenceCount = 1, Payload = CHALK_LIST ?a\<rparr>"
    "Deref ?s1 (Some 3) = Some \<lparr>ReferenceCount = 1, Payload = CHALK_LIST ?a\<rparr>"
    "Deref ?s1 (Some 2) = Some \<lparr>ReferenceCount = 3, Payload = CHALK_LIST [Some 1]\<rparr>"
    "Deref ?s1 (Some 1) = Some \<lparr>ReferenceCount = 4, Payload = CHALK_INT 7\<rparr>"
    "Deref ?s1 (Some 4) = Some \<lparr>ReferenceCount = 1, Payload = CHALK_INT 9\<rparr>"
    by (simp_all add: Deref_def)
  have m: "case ChalkListLookup (Some 3) 0 ?s1 of
           Inl e \<Rightarrow> False
         | Inr (Nested, s2) \<Rightarrow>
             Nested = Some 2
             \<and> (case ChalkListSetElement 20 Nested 0 (Some 4) s2 of
                   Inl e \<Rightarrow> False
                 | Inr (Status, s3) \<Rightarrow>
                     Status = 0
                     \<and> (case ChalkListLookup (Some 5) 0 s3 of
                           Inl e \<Rightarrow> False
                         | Inr (Copied, s4) \<Rightarrow>
                             Copied = Nested
                             \<and> (case ChalkListLookup Copied 0 s4 of
                                   Inl e \<Rightarrow> False
                                 | Inr (Element, s5) \<Rightarrow> Element = Some 4)))"
    by code_simp
  from c l d m show ?thesis
    unfolding s1 by blast
qed

subsection \<open>Setting a list element past the end\<close>

lemma replicate_Suc_last_update: "(replicate (Suc k) x)[k := v] = replicate k x @ [v]"
  by (induction k) simp_all

lemma replicate_Suc_update:
  "(xs @ replicate (Suc k) x)[length xs + k := v] = xs @ replicate k x @ [v]"
  using replicate_Suc_last_update [of k x v]
  by (simp add: list_update_append del: replicate_Suc)

lemma ChalkListSetElement_grows:
  assumes h: "Deref s (Some a) = Some Header"
    and p: "Payload Header = CHALK_LIST Array"
    and le: "length Array \<le> unat Index"
    and ix: "Index \<noteq> - 1"
    and al: "Allocator s = True # Rest"
    and na: "Object \<noteq> Some a"
    and oh: "Deref s Object = Some ObjectHeader"
    and rc: "ReferenceCount ObjectHeader \<noteq> 0" "ReferenceCount ObjectHeader < 0x10000000"
  shows "\<exists>s1. ChalkListSetElement Depth (Some a) Index Object s = Inr (0, s1)
      \<and> Deref s1 (Some a) =
          Some (Header\<lparr>Payload :=
            CHALK_LIST (Array @ replicate (unat Index - length Array) None @ [Object])\<rparr>)
      \<and> Deref s1 Object =
          Some (ObjectHeader\<lparr>ReferenceCount := ReferenceCount ObjectHeader + 1\<rparr>)
      \<and> (\<forall>q. q \<noteq> Some a \<and> q \<noteq> Object \<longrightarrow> Deref s1 q = Deref s q)"
proof -
  define k where "k = unat Index - length Array"
  define A1 where "A1 = Array @ replicate (Suc k) None"
  define A2 where "A2 = Array @ replicate k None @ [Object]"
  define s0 where "s0 = s\<lparr>Allocator := Rest\<rparr>"
  define s1 where "s1 = StoreObject a (Header\<lparr>Payload := CHALK_LIST A1\<rparr>) s0"
  define s2 where "s2 = StoreObject a (Header\<lparr>Payload := CHALK_LIST A2\<rparr>) s1"
  from ix have n: "unat (Index + 1) = unat Index + 1"
    using unatSuc [of Index] by (simp add: add.commute add_eq_0_iff)
  have "length Array < 2 ^ 32"
    using le unsigned_less [of Index, where 'a = nat] by simp
  then have u: "unat (of_nat (length Array) :: 32 word) = length Array"
    by (simp add: unat_of_nat)
  have "(of_nat (length Array) :: 32 word) \<le> Index + 1"
    using le n u by (simp add: word_le_nat_alt)
  then have g: "unat (Index + 1 - of_nat (length Array)) = Suc k"
    using le n u by (simp add: unat_sub k_def)
  have t: "take (unat Index + 1) A1 = A1" and l1: "length A1 = unat Index + 1"
    using le by (simp_all add: A1_def k_def)
  have d0: "Deref s0 q = Deref s q" for q
    by (auto simp: Deref_def s0_def split: option.splits)
  have a: "a < length (Heap s0)" "a < length (Heap s1)" "length (Heap s2) = length (Heap s)"
    using h by (simp_all add: Deref_Some s0_def s1_def s2_def StoreObject_def)
  have kk: "length Array + k = unat Index"
    using le by (simp add: k_def)
  have grow: "ChalkListGrow a Array Index s = Inr (0, s1)"
    using le al n g h kk d0
    by (simp add: ChalkListGrow_def ChalkAllocate_def SetArray_def s1_def s0_def A1_def)
  have d1: "Deref s1 q = (if q = Some a then Some (Header\<lparr>Payload := CHALK_LIST A1\<rparr>)
      else Deref s q)" for q
    using a by (simp add: s1_def Deref_StoreObject d0)
  have i1: "unat Index < length A1" "A1 ! unat Index = None"
    using le by (simp_all add: A1_def k_def nth_append del: replicate_Suc)
  have "A1[unat Index := Object] = A2"
    using le replicate_Suc_update [of Array k None Object]
    by (simp add: A1_def A2_def k_def)
  then have w: "SetArray a (A1[unat Index := Object]) s1 = Inr s2"
    by (simp add: SetArray_def d1 s2_def)
  have d2: "Deref s2 q = (if q = Some a then Some (Header\<lparr>Payload := CHALK_LIST A2\<rparr>)
      else Deref s q)" for q
    using a by (simp add: s2_def Deref_StoreObject d1)
  obtain b where b: "Object = Some b" and bl: "b < length (Heap s2)"
    using oh a(3) by (auto simp: Deref_Some)
  define s3 where
    "s3 = StoreObject b (ObjectHeader\<lparr>ReferenceCount := ReferenceCount ObjectHeader + 1\<rparr>) s2"
  have r: "ChalkObjectAddReference Object s2 = Inr s3"
    using na oh rc unfolding b
    by (simp add: ChalkObjectAddReference_def d2 s3_def)
  have d3: "Deref s3 q = (if q = Object
      then Some (ObjectHeader\<lparr>ReferenceCount := ReferenceCount ObjectHeader + 1\<rparr>)
      else Deref s2 q)" for q
    using bl by (simp add: s3_def b Deref_StoreObject)
  have "ChalkListSetElement Depth (Some a) Index Object s = Inr (0, s3)"
    using h p grow i1 w r b
    by (simp add: ChalkListSetElement_def ListArray_def d1 d2)
  with d3 d2 na show ?thesis
    by (auto simp: A2_def k_def)
qed

text \<open>
  C5. The specification has the setting of an element at any index at or past the end
  of a list grow the list to that index plus one. This holds for every index but the
  last one of the type (the lemma above). At index \<open>0xFFFFFFFF\<close> the count \<open>Index + 1\<close> wraps
  to 0: an empty list is reallocated to no slots and the slot at \<open>Index\<close> is then read
  outside the array; for a list of three slots the \<open>memset\<close> of \<open>Index + 1 - Count\<close>
  slots runs past the array. Index 5 on the same list of three slots gives six slots,
  holes at 3 and 4, the value at 5, with a reference added.
\<close>

theorem ChalkListSetElement_last_index:
  "(case ChalkCreateList None 0 (InitialState [True, True, True, True]) of
      Inl e \<Rightarrow> False
    | Inr (List, s1) \<Rightarrow>
        (case ChalkCreateInteger 7 s1 of
           (Seven, s2) \<Rightarrow>
             map_option Payload (Deref s2 List) = Some (CHALK_LIST [])
             \<and> ChalkListSetElement 20 List 0xFFFFFFFF Seven s2 = Inl MemoryFault))
   \<and> (case ChalkCreateList None 3 (InitialState [True, True, True, True]) of
      Inl e \<Rightarrow> False
    | Inr (List, s1) \<Rightarrow>
        (case ChalkCreateInteger 7 s1 of
           (Seven, s2) \<Rightarrow>
             map_option Payload (Deref s2 List) = Some (CHALK_LIST [None, None, None])
             \<and> ChalkListSetElement 20 List 0xFFFFFFFF Seven s2 = Inl MemoryFault
             \<and> (case ChalkListSetElement 20 List 5 Seven s2 of
                   Inl e \<Rightarrow> False
                 | Inr (Status, s3) \<Rightarrow>
                     Status = 0
                     \<and> map_option Payload (Deref s3 List) =
                         Some (CHALK_LIST [None, None, None, None, None, Seven])
                     \<and> Deref s3 Seven = Some \<lparr>ReferenceCount = 2, Payload = CHALK_INT 7\<rparr>)))"
proof -
  let ?null = "Some \<lparr>ReferenceCount = 1, Payload = CHALK_NULL\<rparr>"
  let ?s0 = "\<lparr>Heap = [?null, Some \<lparr>ReferenceCount = 1, Payload = CHALK_LIST []\<rparr>],
             Allocator = [True, True, True]\<rparr>"
  let ?s3 = "\<lparr>Heap = [?null,
                     Some \<lparr>ReferenceCount = 1, Payload = CHALK_LIST [None, None, None]\<rparr>],
             Allocator = [True, True]\<rparr>"
  let ?t0 = "\<lparr>Heap = [?null, Some \<lparr>ReferenceCount = 1, Payload = CHALK_LIST []\<rparr>,
                     Some \<lparr>ReferenceCount = 1, Payload = CHALK_INT 7\<rparr>],
             Allocator = [True, True]\<rparr>"
  let ?t3 = "\<lparr>Heap = [?null,
                     Some \<lparr>ReferenceCount = 1, Payload = CHALK_LIST [None, None, None]\<rparr>,
                     Some \<lparr>ReferenceCount = 1, Payload = CHALK_INT 7\<rparr>],
             Allocator = [True]\<rparr>"
  have c: "ChalkCreateList None 0 (InitialState [True, True, True, True]) = Inr (Some 1, ?s0)"
    "ChalkCreateList None 3 (InitialState [True, True, True, True]) = Inr (Some 1, ?s3)"
    by code_simp+
  have i: "ChalkCreateInteger 7 ?s0 = (Some 2, ?t0)" "ChalkCreateInteger 7 ?s3 = (Some 2, ?t3)"
    by code_simp+
  have f: "ChalkListSetElement 20 (Some 1) 0xFFFFFFFF (Some 2) ?t0 = Inl MemoryFault"
    "ChalkListSetElement 20 (Some 1) 0xFFFFFFFF (Some 2) ?t3 = Inl MemoryFault"
    by (simp_all add: ChalkListSetElement_def ChalkListGrow_def ChalkAllocate_def Deref_def
        SetArray_def ListArray_def StoreObject_def Let_def)
  have g: "ChalkListSetElement 20 (Some 1) 5 (Some 2) ?t3 =
      Inr (0, \<lparr>Heap = [?null,
                     Some \<lparr>ReferenceCount = 1,
                       Payload = CHALK_LIST [None, None, None, None, None, Some 2]\<rparr>,
                     Some \<lparr>ReferenceCount = 2, Payload = CHALK_INT 7\<rparr>],
             Allocator = []\<rparr>)"
    by code_simp
  show ?thesis
    unfolding c i f g sum.case prod.case
    by (simp add: Deref_def)
qed

subsection \<open>The order of the specification is an order\<close>

lemma SpecCompare_range:
  "SpecCompare a b \<in> {- 1, 0, 1}"
  "SpecCompareElements xs ys \<in> {- 1, 0, 1}"
  by (induction a b and xs ys rule: SpecCompare_SpecCompareElements.induct) auto

lemma SpecCompareElements_Nil_right [simp]: "SpecCompareElements xs [] = 0"
  by (cases xs) simp_all

lemma SpecCompare_swap:
  "SpecCompare b a = - SpecCompare a b"
  "SpecCompareElements ys xs = - SpecCompareElements xs ys"
proof (induction a b and xs ys rule: SpecCompare_SpecCompareElements.induct)
  case (3 a b)
  then show ?case
    using lexordp_antisym [of a b] by auto
qed auto

lemma SpecCompare_equal:
  "SpecCompare a b = 0 \<longleftrightarrow> a = b"
  "length xs = length ys \<longrightarrow> (SpecCompareElements xs ys = 0 \<longleftrightarrow> xs = ys)"
proof (induction a b and xs ys rule: SpecCompare_SpecCompareElements.induct)
  case (3 a b)
  then show ?case
    using lexordp_linear [of a b] lexordp_irreflexive' [of a] by auto
qed auto

subsection \<open>\<open>strcmp\<close> on terminated buffers\<close>

lemma strcmp_difference:
  fixes x y :: "8 word"
  shows "int (unat x) - int (unat y) < 0 \<longleftrightarrow> x < y"
    and "0 < int (unat x) - int (unat y) \<longleftrightarrow> y < x"
  by (simp_all add: word_less_def)

lemma strcmp_terminated:
  assumes "0 \<notin> set xs" and "0 \<notin> set ys"
  shows "\<exists>r. strcmp (xs @ [0]) (ys @ [0]) = Some r
      \<and> (r < 0 \<longleftrightarrow> ord_class.lexordp xs ys) \<and> (0 < r \<longleftrightarrow> ord_class.lexordp ys xs)"
  using assms
proof (induction xs arbitrary: ys)
  case Nil
  show ?case
  proof (cases ys)
    case Nil
    then show ?thesis by simp
  next
    case (Cons y ys')
    with Nil.prems have "0 < y" "y \<noteq> 0"
      by (auto simp: word_neq_0_conv)
    with Cons strcmp_difference [of 0 y] show ?thesis
      by (simp del: of_nat_unat)
  qed
next
  case (Cons x xs)
  show ?case
  proof (cases ys)
    case Nil
    from Cons.prems have "0 < x" "x \<noteq> 0"
      by (auto simp: word_neq_0_conv)
    with Nil strcmp_difference [of x 0] show ?thesis
      by (simp del: of_nat_unat)
  next
    case (Cons y ys')
    show ?thesis
    proof (cases "x = y")
      case True
      with Cons.IH [of ys'] Cons.prems Cons show ?thesis
        by auto
    next
      case False
      then have "x < y \<or> y < x"
        by auto
      with False Cons strcmp_difference [of x y] show ?thesis
        by (auto simp del: of_nat_unat)
    qed
  qed
qed

subsection \<open>The comparison computes the order of the specification\<close>

lemma those_Cons_Some:
  "those (x # xs) = Some vs \<longleftrightarrow> (\<exists>v vs1. x = Some v \<and> those xs = Some vs1 \<and> vs = v # vs1)"
  by (cases x) (auto split: option.splits)

lemma those_length: "those xs = Some vs \<Longrightarrow> length vs = length xs"
proof (induction xs arbitrary: vs)
  case Nil
  then show ?case by simp
next
  case (Cons x xs)
  from Cons.prems obtain v vs1 where "those xs = Some vs1" "vs = v # vs1"
    unfolding those_Cons_Some by blast
  with Cons.IH show ?case by simp
qed

lemma CompareElements_SpecCompareElements:
  assumes IH: "\<And>l r lv rv. ValueOf Depth s l = Some lv \<Longrightarrow> ValueOf Depth s r = Some rv \<Longrightarrow>
      Compare l r = Inr (SpecCompare lv rv)"
  shows "those (map (ValueOf Depth s) LeftArray) = Some ls \<Longrightarrow>
      those (map (ValueOf Depth s) RightArray) = Some rs \<Longrightarrow>
      length LeftArray = length RightArray \<Longrightarrow>
      CompareElements Compare LeftArray RightArray = Inr (SpecCompareElements ls rs)"
proof (induction LeftArray arbitrary: RightArray ls rs)
  case Nil
  then show ?case by simp
next
  case (Cons l LeftArray)
  from Cons.prems(3) obtain r RightArray1 where r: "RightArray = r # RightArray1"
    by (cases RightArray) auto
  from Cons.prems(1) obtain lv ls1 where l1: "ValueOf Depth s l = Some lv"
    "those (map (ValueOf Depth s) LeftArray) = Some ls1" "ls = lv # ls1"
    by (auto simp: those_Cons_Some simp del: those.simps)
  from Cons.prems(2) r obtain rv rs1 where r1: "ValueOf Depth s r = Some rv"
    "those (map (ValueOf Depth s) RightArray1) = Some rs1" "rs = rv # rs1"
    by (auto simp: those_Cons_Some simp del: those.simps)
  from Cons.IH [OF l1(2) r1(2)] Cons.prems(3) r
  have "CompareElements Compare LeftArray RightArray1 = Inr (SpecCompareElements ls1 rs1)"
    by simp
  with IH [OF l1(1) r1(1)] r l1(3) r1(3) show ?case
    by simp
qed

lemma ValueOf_Suc_cases:
  assumes "ValueOf (Suc Depth) s Object = Some v"
  obtains (Null) Header where "Deref s Object = Some Header" "Payload Header = CHALK_NULL"
      "v = NullValue"
  | (Integer) Header IntValue where "Deref s Object = Some Header"
      "Payload Header = CHALK_INT IntValue" "v = IntegerValue (sint IntValue)"
  | (String) Header Bytes Size where "Deref s Object = Some Header"
      "Payload Header = CHALK_STRING (Bytes @ [0]) Size" "0 \<notin> set Bytes"
      "length Bytes = unat Size" "v = StringValue Bytes"
  | (List) Header Array vs where "Deref s Object = Some Header"
      "Payload Header = CHALK_LIST Array" "those (map (ValueOf Depth s) Array) = Some vs"
      "v = ListValue vs"
proof -
  from assms obtain Header where h: "Deref s Object = Some Header"
    by (auto split: option.splits)
  show ?thesis
  proof (cases "Payload Header")
    case CHALK_NULL
    with assms h show ?thesis by (auto intro: Null)
  next
    case (CHALK_INT IntValue)
    with assms h show ?thesis by (auto intro: Integer)
  next
    case (CHALK_STRING Buffer Size)
    with assms h have b: "length Buffer = Suc (unat Size)" "last Buffer = 0"
      "0 \<notin> set (butlast Buffer)" "v = StringValue (butlast Buffer)"
      by (auto split: if_splits)
    then have "Buffer = butlast Buffer @ [0]"
      by (metis append_butlast_last_id length_0_conv nat.distinct(1))
    with b CHALK_STRING h show ?thesis
      by (intro String [of Header "butlast Buffer" Size]) auto
  next
    case (CHALK_LIST Array)
    with assms h show ?thesis by (auto intro: List)
  next
    case (CHALK_DICT_OBJECT Dict)
    with assms h show ?thesis by simp
  next
    case (CHALK_FUNCTION Arguments Body Script)
    with assms h show ?thesis by simp
  qed
qed

subsection \<open>The comparison, case by case\<close>

lemma ChalkCompareObjects_kinds:
  assumes "Deref s LeftObject = Some l" and "Deref s RightObject = Some r"
    and "HeaderType l \<noteq> HeaderType r"
  shows "ChalkCompareObjects (Suc Depth) s LeftObject RightObject =
           Inr (if TypeValue (HeaderType l) < TypeValue (HeaderType r) then - 1 else 1)"
  using assms by simp

lemma ChalkCompareObjects_null:
  assumes "Deref s LeftObject = Some l" and "Deref s RightObject = Some r"
    and "Payload l = CHALK_NULL" and "Payload r = CHALK_NULL"
  shows "ChalkCompareObjects (Suc Depth) s LeftObject RightObject = Inr 0"
  using assms by (simp add: HeaderType_def)

lemma ChalkCompareObjects_integer:
  assumes "Deref s LeftObject = Some l" and "Deref s RightObject = Some r"
    and "Payload l = CHALK_INT LeftValue" and "Payload r = CHALK_INT RightValue"
  shows "ChalkCompareObjects (Suc Depth) s LeftObject RightObject =
           Inr (if sint LeftValue < sint RightValue then - 1
                else if sint LeftValue > sint RightValue then 1 else 0)"
  using assms by (simp add: HeaderType_def)

lemma ChalkCompareObjects_string:
  assumes "Deref s LeftObject = Some l" and "Deref s RightObject = Some r"
    and "Payload l = CHALK_STRING LeftString LeftSize"
    and "Payload r = CHALK_STRING RightString RightSize"
  shows "ChalkCompareObjects (Suc Depth) s LeftObject RightObject =
           (case strcmp LeftString RightString of
              None \<Rightarrow> Inl MemoryFault
            | Some Result \<Rightarrow>
                Inr (if Result < 0 then - 1 else if Result > 0 then 1 else 0))"
  using assms by (simp add: HeaderType_def split: option.splits)

lemma ChalkCompareObjects_list:
  assumes "Deref s LeftObject = Some l" and "Deref s RightObject = Some r"
    and "Payload l = CHALK_LIST LeftArray" and "Payload r = CHALK_LIST RightArray"
  shows "ChalkCompareObjects (Suc Depth) s LeftObject RightObject =
           (if length LeftArray < length RightArray then Inr (- 1)
            else if length LeftArray > length RightArray then Inr 1
            else CompareElements (ChalkCompareObjects Depth s) LeftArray RightArray)"
  using assms by (simp add: HeaderType_def)

lemma KindNumber_TypeValue:
  assumes "ValueOf (Suc Depth) s Object = Some v" and "Deref s Object = Some Header"
  shows "KindNumber v = TypeValue (HeaderType Header)"
  using assms(1)
  by (cases rule: ValueOf_Suc_cases) (use assms(2) in \<open>auto simp: HeaderType_def\<close>)

lemma SpecCompare_kinds:
  assumes "KindNumber a \<noteq> KindNumber b"
  shows "SpecCompare a b = (if KindNumber a < KindNumber b then - 1 else 1)"
  using assms by (cases a; cases b) simp_all

lemma TypeValue_inject: "TypeValue a = TypeValue b \<longleftrightarrow> a = b"
  by (cases a; cases b) simp_all

lemma ChalkCompareObjects_SpecCompare:
  "ValueOf Depth s LeftObject = Some LeftValue \<Longrightarrow>
   ValueOf Depth s RightObject = Some RightValue \<Longrightarrow>
   ChalkCompareObjects Depth s LeftObject RightObject = Inr (SpecCompare LeftValue RightValue)"
proof (induction Depth arbitrary: LeftObject RightObject LeftValue RightValue)
  case 0
  then show ?case by simp
next
  case (Suc Depth)
  from Suc.prems obtain l r where d: "Deref s LeftObject = Some l" "Deref s RightObject = Some r"
    by (auto split: option.splits)
  note k = KindNumber_TypeValue [OF Suc.prems(1) d(1)] KindNumber_TypeValue [OF Suc.prems(2) d(2)]
  show ?case
  proof (cases "HeaderType l = HeaderType r")
    case False
    with k have "KindNumber LeftValue \<noteq> KindNumber RightValue"
      by (simp add: TypeValue_inject)
    from SpecCompare_kinds [OF this] ChalkCompareObjects_kinds [OF d False, of Depth] k
    show ?thesis by (simp del: ChalkCompareObjects.simps)
  next
    case True
    from Suc.prems(1) show ?thesis
    proof (cases rule: ValueOf_Suc_cases)
      case l: (Null lh)
      from Suc.prems(2) show ?thesis
      proof (cases rule: ValueOf_Suc_cases)
        case r: (Null rh)
        with l d ChalkCompareObjects_null [OF d, of Depth] show ?thesis by (simp del: ChalkCompareObjects.simps)
      qed (use l d True in \<open>simp_all add: HeaderType_def del: ChalkCompareObjects.simps\<close>)
    next
      case l: (Integer lh li)
      from Suc.prems(2) show ?thesis
      proof (cases rule: ValueOf_Suc_cases)
        case r: (Integer rh ri)
        with l d ChalkCompareObjects_integer [OF d, of li ri Depth] show ?thesis by (simp del: ChalkCompareObjects.simps)
      qed (use l d True in \<open>simp_all add: HeaderType_def del: ChalkCompareObjects.simps\<close>)
    next
      case l: (String lh lb lsz)
      from Suc.prems(2) show ?thesis
      proof (cases rule: ValueOf_Suc_cases)
        case r: (String rh rb rsz)
        from strcmp_terminated [OF l(3) r(3)] obtain c where
          "strcmp (lb @ [0]) (rb @ [0]) = Some c"
          "c < 0 \<longleftrightarrow> ord_class.lexordp lb rb" "0 < c \<longleftrightarrow> ord_class.lexordp rb lb"
          by blast
        with l r d ChalkCompareObjects_string [OF d, of "lb @ [0]" lsz "rb @ [0]" rsz Depth]
        show ?thesis by (simp del: ChalkCompareObjects.simps)
      qed (use l d True in \<open>simp_all add: HeaderType_def del: ChalkCompareObjects.simps\<close>)
    next
      case l: (List lh la lvs)
      from Suc.prems(2) show ?thesis
      proof (cases rule: ValueOf_Suc_cases)
        case r: (List rh ra rvs)
        have len: "length lvs = length la" "length rvs = length ra"
          using those_length [OF l(3)] those_length [OF r(3)] by simp_all
        have dl: "Deref s LeftObject = Some lh" "Deref s RightObject = Some rh"
          by (fact l(1)) (fact r(1))
        note c = ChalkCompareObjects_list [OF dl l(2) r(2), of Depth]
        have ih: "\<And>l r lv rv. ValueOf Depth s l = Some lv \<Longrightarrow> ValueOf Depth s r = Some rv \<Longrightarrow>
            ChalkCompareObjects Depth s l r = Inr (SpecCompare lv rv)"
          by (rule Suc.IH)
        show ?thesis
        proof (cases "length la = length ra")
          case e: True
          have "CompareElements (ChalkCompareObjects Depth s) la ra =
              Inr (SpecCompareElements lvs rvs)"
            using ih l(3) r(3) e by (rule CompareElements_SpecCompareElements)
          with e have "ChalkCompareObjects (Suc Depth) s LeftObject RightObject =
              Inr (SpecCompareElements lvs rvs)"
            unfolding c by simp
          with e len show ?thesis
            unfolding l(4) r(4) by simp
        next
          case False
          then have "ChalkCompareObjects (Suc Depth) s LeftObject RightObject =
              Inr (if length la < length ra then - 1 else 1)"
            unfolding c by auto
          with False len show ?thesis
            unfolding l(4) r(4) by auto
        qed
      qed (use l d True in \<open>simp_all add: HeaderType_def del: ChalkCompareObjects.simps\<close>)
    qed
  qed
qed

text \<open>
  C4. For two objects that stand for values the order is stated for (null, integers,
  strings without a zero byte, lists without holes of such values, read off the heap by
  \<open>ValueOf\<close>), with a depth that covers their nesting: the comparison returns, and its
  result is the order of the specification on the two values, which is the numeric order
  on integers, the lexicographic order of the bytes on strings, and length first, then
  element by element, on lists. The result is -1, 0 or 1; the comparison the other way
  round returns its negation; and the result is 0 exactly when the two values are
  equal, wherever the two objects and their elements are stored.
\<close>

theorem ChalkCompareObjects_order:
  assumes "ValueOf Depth s LeftObject = Some LeftValue"
    and "ValueOf Depth s RightObject = Some RightValue"
  shows "ChalkCompareObjects Depth s LeftObject RightObject =
           Inr (SpecCompare LeftValue RightValue)
       \<and> SpecCompare LeftValue RightValue \<in> {- 1, 0, 1}
       \<and> ChalkCompareObjects Depth s RightObject LeftObject =
           Inr (- SpecCompare LeftValue RightValue)
       \<and> (ChalkCompareObjects Depth s LeftObject RightObject = Inr 0
            \<longleftrightarrow> LeftValue = RightValue)"
proof -
  note c = ChalkCompareObjects_SpecCompare [OF assms]
  from ChalkCompareObjects_SpecCompare [OF assms(2,1)]
  have "ChalkCompareObjects Depth s RightObject LeftObject =
      Inr (- SpecCompare LeftValue RightValue)"
    by (simp add: SpecCompare_swap(1) [of RightValue LeftValue])
  with c SpecCompare_range(1) [of LeftValue RightValue]
    SpecCompare_equal(1) [of LeftValue RightValue]
  show ?thesis
    by simp
qed

theorem ChalkCompareObjects_order_witness:
  "ChalkCompareObjects 3 SampleState (Some 11) (Some 13) = Inr 0
   \<and> ChalkCompareObjects 3 SampleState (Some 13) (Some 11) = Inr 0
   \<and> ChalkCompareObjects 3 SampleState (Some 6) (Some 14) = Inr 0
   \<and> ChalkCompareObjects 3 SampleState (Some 8) (Some 12) = Inr 0
   \<and> ChalkCompareObjects 3 SampleState (Some 1) (Some 3) = Inr (- 1)
   \<and> ChalkCompareObjects 3 SampleState (Some 3) (Some 1) = Inr 1
   \<and> ChalkCompareObjects 3 SampleState (Some 5) (Some 6) = Inr (- 1)
   \<and> ChalkCompareObjects 3 SampleState (Some 6) (Some 5) = Inr 1
   \<and> ChalkCompareObjects 3 SampleState (Some 9) (Some 11) = Inr (- 1)
   \<and> ChalkCompareObjects 3 SampleState (Some 11) (Some 9) = Inr 1
   \<and> ChalkCompareObjects 3 SampleState (Some 0) (Some 1) = Inr (- 1)
   \<and> ChalkCompareObjects 3 SampleState (Some 6) (Some 7) = Inr (- 1)
   \<and> ChalkCompareObjects 3 SampleState (Some 7) (Some 6) = Inr 1"
proof -
  have v: "ValueOf 3 SampleState (Some 0) = Some NullValue"
    "ValueOf 3 SampleState (Some 1) = Some (IntegerValue (- 1))"
    "ValueOf 3 SampleState (Some 3) = Some (IntegerValue 5)"
    "ValueOf 3 SampleState (Some 5) = Some (StringValue [0x61])"
    "ValueOf 3 SampleState (Some 6) = Some (StringValue [0x61, 0x62])"
    "ValueOf 3 SampleState (Some 7) = Some (ListValue [])"
    "ValueOf 3 SampleState (Some 8) = Some (IntegerValue 1)"
    "ValueOf 3 SampleState (Some 9) = Some (ListValue [IntegerValue 1])"
    "ValueOf 3 SampleState (Some 11) = Some (ListValue [IntegerValue 1, IntegerValue 2])"
    "ValueOf 3 SampleState (Some 12) = Some (IntegerValue 1)"
    "ValueOf 3 SampleState (Some 13) = Some (ListValue [IntegerValue 1, IntegerValue 2])"
    "ValueOf 3 SampleState (Some 14) = Some (StringValue [0x61, 0x62])"
    by code_simp+
  from ChalkCompareObjects_order [OF v(9) v(11)] ChalkCompareObjects_order [OF v(5) v(12)]
    ChalkCompareObjects_order [OF v(7) v(10)] ChalkCompareObjects_order [OF v(2) v(3)]
    ChalkCompareObjects_order [OF v(4) v(5)] ChalkCompareObjects_order [OF v(8) v(9)]
    ChalkCompareObjects_order [OF v(1) v(2)] ChalkCompareObjects_order [OF v(5) v(6)]
  show ?thesis
    by simp
qed

subsection \<open>Comparing lists with holes\<close>

lemma strcmp_Some:
  assumes "0 \<in> set xs" and "0 \<in> set ys"
  shows "\<exists>r. strcmp xs ys = Some r"
  using assms
proof (induction xs ys rule: strcmp.induct)
  case (1 x xs y ys)
  then show ?case by auto
qed simp_all

lemma ChalkCompareObjects_identity:
  assumes "Deref s LeftObject = Some l" and "Deref s RightObject = Some r"
    and "HeaderType l = HeaderType r"
    and "HeaderType l = ChalkObjectDict \<or> HeaderType l = ChalkObjectFunction"
  shows "\<exists>Result. ChalkCompareObjects (Suc Depth) s LeftObject RightObject = Inr Result"
  using assms by (cases "Payload l"; cases "Payload r") (auto simp: HeaderType_def)

lemma CompareElements_returns:
  assumes "\<And>l r. HoleFree Depth s l \<Longrightarrow> HoleFree Depth s r \<Longrightarrow> \<exists>Result. Compare l r = Inr Result"
  shows "list_all (HoleFree Depth s) LeftArray \<Longrightarrow> list_all (HoleFree Depth s) RightArray \<Longrightarrow>
      length LeftArray = length RightArray \<Longrightarrow>
      \<exists>Result. CompareElements Compare LeftArray RightArray = Inr Result"
proof (induction LeftArray arbitrary: RightArray)
  case Nil
  then show ?case by simp
next
  case (Cons l LeftArray)
  from Cons.prems(3) obtain r RightArray1 where r: "RightArray = r # RightArray1"
    by (cases RightArray) auto
  with Cons.prems have h: "HoleFree Depth s l" "HoleFree Depth s r"
    and t: "list_all (HoleFree Depth s) LeftArray" "list_all (HoleFree Depth s) RightArray1"
      "length LeftArray = length RightArray1"
    by simp_all
  from assms [OF h] obtain Result where "Compare l r = Inr Result"
    by blast
  with Cons.IH [OF t] r show ?case
    by auto
qed

lemma ChalkCompareObjects_returns:
  "HoleFree Depth s LeftObject \<Longrightarrow> HoleFree Depth s RightObject \<Longrightarrow>
   \<exists>Result. ChalkCompareObjects Depth s LeftObject RightObject = Inr Result"
proof (induction Depth arbitrary: LeftObject RightObject)
  case 0
  then show ?case by simp
next
  case (Suc Depth)
  from Suc.prems obtain l r where d: "Deref s LeftObject = Some l" "Deref s RightObject = Some r"
    by (auto split: option.splits)
  have ih: "\<And>l r. HoleFree Depth s l \<Longrightarrow> HoleFree Depth s r \<Longrightarrow>
      \<exists>Result. ChalkCompareObjects Depth s l r = Inr Result"
    by (rule Suc.IH)
  show ?case
  proof (cases "HeaderType l = HeaderType r")
    case False
    from ChalkCompareObjects_kinds [OF d False, of Depth] show ?thesis
      by blast
  next
    case True
    show ?thesis
    proof (cases "Payload l")
      case CHALK_NULL
      with True have "Payload r = CHALK_NULL"
        by (cases "Payload r") (simp_all add: HeaderType_def)
      from ChalkCompareObjects_null [OF d CHALK_NULL this, of Depth] show ?thesis
        by blast
    next
      case (CHALK_INT a)
      with True obtain b where b: "Payload r = CHALK_INT b"
        by (cases "Payload r") (simp_all add: HeaderType_def)
      from ChalkCompareObjects_integer [OF d CHALK_INT this, of Depth] show ?thesis
        by blast
    next
      case (CHALK_STRING ls lsz)
      with True obtain rs rsz where b: "Payload r = CHALK_STRING rs rsz"
        by (cases "Payload r") (simp_all add: HeaderType_def)
      from Suc.prems d CHALK_STRING b have "0 \<in> set ls" "0 \<in> set rs"
        by simp_all
      from strcmp_Some [OF this] obtain c where "strcmp ls rs = Some c"
        by blast
      with ChalkCompareObjects_string [OF d CHALK_STRING b, of Depth] show ?thesis
        by simp
    next
      case (CHALK_LIST la)
      with True obtain ra where b: "Payload r = CHALK_LIST ra"
        by (cases "Payload r") (simp_all add: HeaderType_def)
      from Suc.prems d CHALK_LIST b have h: "list_all (HoleFree Depth s) la"
        "list_all (HoleFree Depth s) ra"
        by simp_all
      note c = ChalkCompareObjects_list [OF d CHALK_LIST b, of Depth]
      show ?thesis
      proof (cases "length la = length ra")
        case True
        from CompareElements_returns [of Depth s "ChalkCompareObjects Depth s", OF ih h True]
        show ?thesis
          unfolding c using True by simp
      next
        case False
        then show ?thesis
          unfolding c by auto
      qed
    next
      case (CHALK_DICT_OBJECT Dict)
      then have "HeaderType l = ChalkObjectDict"
        by (simp add: HeaderType_def)
      with ChalkCompareObjects_identity [OF d True] show ?thesis
        by blast
    next
      case (CHALK_FUNCTION Arguments Body Script)
      then have "HeaderType l = ChalkObjectFunction"
        by (simp add: HeaderType_def)
      with ChalkCompareObjects_identity [OF d True] show ?thesis
        by blast
    qed
  qed
qed

lemma CompareElements_hole:
  assumes n: "\<And>p. Compare None p = Inl MemoryFault" "\<And>p. Compare p None = Inl MemoryFault"
  shows "length LeftArray = length RightArray \<Longrightarrow> i < length LeftArray \<Longrightarrow>
      LeftArray ! i = None \<or> RightArray ! i = None \<Longrightarrow>
      \<forall>j<i. Compare (LeftArray ! j) (RightArray ! j) = Inr 0 \<Longrightarrow>
      CompareElements Compare LeftArray RightArray = Inl MemoryFault"
proof (induction LeftArray arbitrary: RightArray i)
  case Nil
  then show ?case by simp
next
  case (Cons l LeftArray)
  from Cons.prems(1) obtain r RightArray1 where r: "RightArray = r # RightArray1"
    by (cases RightArray) auto
  show ?case
  proof (cases i)
    case 0
    with Cons.prems(3) r n show ?thesis
      by auto
  next
    case (Suc k)
    with Cons.prems r have "length LeftArray = length RightArray1" "k < length LeftArray"
      "LeftArray ! k = None \<or> RightArray1 ! k = None"
      by simp_all
    moreover from Cons.prems(4) Suc r
    have "\<forall>j<k. Compare (LeftArray ! j) (RightArray1 ! j) = Inr 0"
      by auto
    ultimately have "CompareElements Compare LeftArray RightArray1 = Inl MemoryFault"
      by (rule Cons.IH)
    moreover from Cons.prems(4) Suc r have "Compare l r = Inr 0"
      by auto
    ultimately show ?thesis
      using r by simp
  qed
qed

text \<open>
  C9. The list case of the comparison passes slot after slot of both arrays to the
  comparison of the next level, with no test for a hole. When both objects are without
  holes (live, strings terminated, lists without holes, and so their elements, within the
  depth), the comparison returns a result: no access it makes meets a NULL or dangling
  pointer. Without that, for two lists of the same length and a slot that is a hole in
  either, all slots before it comparing equal, the comparison reads through the NULL
  pointer of the hole and does not return.
\<close>

theorem ChalkCompareObjects_holes:
  "(HoleFree Depth s LeftObject \<and> HoleFree Depth s RightObject \<longrightarrow>
      (\<exists>Result. ChalkCompareObjects Depth s LeftObject RightObject = Inr Result))
   \<and> (2 \<le> Depth
       \<and> Deref s LeftObject = Some l \<and> Deref s RightObject = Some r
       \<and> Payload l = CHALK_LIST LeftArray \<and> Payload r = CHALK_LIST RightArray
       \<and> length LeftArray = length RightArray \<and> i < length LeftArray
       \<and> (LeftArray ! i = None \<or> RightArray ! i = None)
       \<and> (\<forall>j<i. ChalkCompareObjects (Depth - 1) s (LeftArray ! j) (RightArray ! j) = Inr 0) \<longrightarrow>
      ChalkCompareObjects Depth s LeftObject RightObject = Inl MemoryFault)"
proof (intro conjI impI)
  assume "HoleFree Depth s LeftObject \<and> HoleFree Depth s RightObject"
  then show "\<exists>Result. ChalkCompareObjects Depth s LeftObject RightObject = Inr Result"
    by (auto intro: ChalkCompareObjects_returns)
next
  assume a: "2 \<le> Depth
       \<and> Deref s LeftObject = Some l \<and> Deref s RightObject = Some r
       \<and> Payload l = CHALK_LIST LeftArray \<and> Payload r = CHALK_LIST RightArray
       \<and> length LeftArray = length RightArray \<and> i < length LeftArray
       \<and> (LeftArray ! i = None \<or> RightArray ! i = None)
       \<and> (\<forall>j<i. ChalkCompareObjects (Depth - 1) s (LeftArray ! j) (RightArray ! j) = Inr 0)"
  then have "2 \<le> Depth"
    by (rule conjunct1)
  then obtain n where n: "Depth = Suc (Suc n)"
    by (cases Depth; cases "Depth - 1") auto
  have f: "\<And>p. ChalkCompareObjects (Suc n) s None p = Inl MemoryFault"
    "\<And>p. ChalkCompareObjects (Suc n) s p None = Inl MemoryFault"
    by (simp_all split: option.splits)
  from a n have "CompareElements (ChalkCompareObjects (Suc n) s) LeftArray RightArray =
      Inl MemoryFault"
    by (intro CompareElements_hole
        [where Compare = "ChalkCompareObjects (Suc n) s" and i = i, OF f])
      (auto simp del: ChalkCompareObjects.simps)
  with a ChalkCompareObjects_list [of s LeftObject l RightObject r LeftArray RightArray "Suc n"]
  show "ChalkCompareObjects Depth s LeftObject RightObject = Inl MemoryFault"
    unfolding n by (simp del: ChalkCompareObjects.simps)
qed

theorem ChalkCompareObjects_holes_witness:
  "HoleFree 3 HoleState (Some 6) \<and> HoleFree 3 HoleState (Some 7)
   \<and> ChalkCompareObjects 3 HoleState (Some 6) (Some 7) = Inr (- 1)
   \<and> ChalkCompareObjects 3 HoleState (Some 1) (Some 2) = Inl MemoryFault
   \<and> ChalkCompareObjects 3 HoleState (Some 4) (Some 5) = Inl MemoryFault
   \<and> ChalkCompareObjects 3 HoleState (Some 4) (Some 4) = Inl MemoryFault"
proof -
  let ?one = "\<lparr>ReferenceCount = 1, Payload = CHALK_LIST [None]\<rparr>"
  let ?two = "\<lparr>ReferenceCount = 1, Payload = CHALK_LIST [Some 3, None]\<rparr>"
  have h: "HoleFree 3 HoleState (Some 6) \<and> HoleFree 3 HoleState (Some 7)"
    by code_simp
  have r: "ChalkCompareObjects 3 HoleState (Some 6) (Some 7) = Inr (- 1)"
    by code_simp
  have d: "Deref HoleState (Some 1) = Some ?one" "Deref HoleState (Some 2) = Some ?one"
    "Deref HoleState (Some 4) = Some ?two" "Deref HoleState (Some 5) = Some ?two"
    by (simp_all add: HoleState_def Deref_def)
  have e: "ChalkCompareObjects 2 HoleState (Some 3) (Some 3) = Inr 0"
    by code_simp
  from ChalkCompareObjects_holes
    [where Depth = 3 and s = HoleState and LeftObject = "Some 6" and RightObject = "Some 7"] h
  have 1: "\<exists>Result. ChalkCompareObjects 3 HoleState (Some 6) (Some 7) = Inr Result"
    by blast
  have "2 \<le> (3::nat)
       \<and> Deref HoleState (Some 1) = Some ?one \<and> Deref HoleState (Some 2) = Some ?one
       \<and> Payload ?one = CHALK_LIST [None] \<and> Payload ?one = CHALK_LIST [None]
       \<and> length [None :: PCHALK_OBJECT] = length [None :: PCHALK_OBJECT]
       \<and> 0 < length [None :: PCHALK_OBJECT]
       \<and> ([None :: PCHALK_OBJECT] ! 0 = None \<or> [None :: PCHALK_OBJECT] ! 0 = None)
       \<and> (\<forall>j<0. ChalkCompareObjects (3 - 1) HoleState ([None] ! j) ([None] ! j) = Inr 0)"
    using d by simp
  with ChalkCompareObjects_holes
    [where Depth = 3 and s = HoleState and LeftObject = "Some 1" and RightObject = "Some 2"
      and l = ?one and r = ?one and LeftArray = "[None]" and RightArray = "[None]" and i = 0]
  have 2: "ChalkCompareObjects 3 HoleState (Some 1) (Some 2) = Inl MemoryFault"
    by blast
  have p: "2 \<le> (3::nat)
       \<and> Deref HoleState (Some 4) = Some ?two \<and> Deref HoleState (Some 5) = Some ?two
       \<and> Payload ?two = CHALK_LIST [Some 3, None] \<and> Payload ?two = CHALK_LIST [Some 3, None]
       \<and> length [Some 3, None :: PCHALK_OBJECT] = length [Some 3, None :: PCHALK_OBJECT]
       \<and> 1 < length [Some 3, None :: PCHALK_OBJECT]
       \<and> ([Some 3, None :: PCHALK_OBJECT] ! 1 = None \<or> [Some 3, None :: PCHALK_OBJECT] ! 1 = None)
       \<and> (\<forall>j<1. ChalkCompareObjects (3 - 1) HoleState ([Some 3, None] ! j) ([Some 3, None] ! j)
             = Inr 0)"
    using d e by (simp del: ChalkCompareObjects.simps)
  with ChalkCompareObjects_holes
    [where Depth = 3 and s = HoleState and LeftObject = "Some 4" and RightObject = "Some 5"
      and l = ?two and r = ?two and LeftArray = "[Some 3, None]"
      and RightArray = "[Some 3, None]" and i = 1]
  have 3: "ChalkCompareObjects 3 HoleState (Some 4) (Some 5) = Inl MemoryFault"
    by blast
  from p d have "2 \<le> (3::nat)
       \<and> Deref HoleState (Some 4) = Some ?two \<and> Deref HoleState (Some 4) = Some ?two
       \<and> Payload ?two = CHALK_LIST [Some 3, None] \<and> Payload ?two = CHALK_LIST [Some 3, None]
       \<and> length [Some 3, None :: PCHALK_OBJECT] = length [Some 3, None :: PCHALK_OBJECT]
       \<and> 1 < length [Some 3, None :: PCHALK_OBJECT]
       \<and> ([Some 3, None :: PCHALK_OBJECT] ! 1 = None \<or> [Some 3, None :: PCHALK_OBJECT] ! 1 = None)
       \<and> (\<forall>j<1. ChalkCompareObjects (3 - 1) HoleState ([Some 3, None] ! j) ([Some 3, None] ! j)
             = Inr 0)"
    by blast
  with ChalkCompareObjects_holes
    [where Depth = 3 and s = HoleState and LeftObject = "Some 4" and RightObject = "Some 4"
      and l = ?two and r = ?two and LeftArray = "[Some 3, None]"
      and RightArray = "[Some 3, None]" and i = 1]
  have 4: "ChalkCompareObjects 3 HoleState (Some 4) (Some 4) = Inl MemoryFault"
    by blast
  from h r 1 2 3 4 show ?thesis
    by blast
qed

subsection \<open>Calls that return\<close>

text \<open>
  \<open>ChalkListLookup\<close> returns \<open>NULL\<close>, and leaves the state alone, for an index at or past
  the end of the list and for a slot that is a hole; for a slot that holds an object
  (the null object included) it returns the pointer to that object.
\<close>

lemma ChalkListLookup_absent:
  assumes "Deref s List = Some Header" and "Payload Header = CHALK_LIST Array"
  shows "length Array \<le> unat Index \<or> Array ! unat Index = None \<Longrightarrow>
         ChalkListLookup List Index s = Inr (None, s)"
    and "unat Index < length Array \<Longrightarrow> Array ! unat Index = Some b \<Longrightarrow>
         ChalkListLookup List Index s = Inr (Object, s1) \<Longrightarrow> Object = Some b"
  using assms by (auto simp: ChalkListLookup_def Let_def split: sum.splits)

text \<open>
  A reference is added to every live object whose count is in the range the assertion
  of \<open>ChalkObjectAddReference\<close> allows; only the count of that object changes.
\<close>

lemma ChalkObjectAddReference_returns:
  assumes "Deref s p = Some Object"
    and "ReferenceCount Object \<noteq> 0" and "ReferenceCount Object < 0x10000000"
  shows "\<exists>s1. ChalkObjectAddReference p s = Inr s1
      \<and> (\<forall>q. Deref s1 q =
            (if q = p then Some (Object\<lparr>ReferenceCount := ReferenceCount Object + 1\<rparr>)
             else Deref s q))"
proof -
  from assms(1) obtain a where a: "p = Some a" "a < length (Heap s)"
    by (auto simp: Deref_Some)
  with assms show ?thesis
    by (auto simp: ChalkObjectAddReference_def Deref_StoreObject)
qed

text \<open>
  Setting a key that has no entry returns 0 with the new entry, at any depth at which
  the lookup returned, when the allocator grants the entry and the counts of the key
  and of the value leave room for the references they receive.
\<close>

lemma ChalkDictSetElement_inserts:
  assumes d: "Deref s (Some d) = Some Header" "Payload Header = CHALK_DICT_OBJECT Dict"
    and k: "Deref s KeyObject = Some KeyHeader"
      "HeaderType KeyHeader = ChalkObjectInteger \<or> HeaderType KeyHeader = ChalkObjectString"
    and l: "ChalkDictLookup Depth (Some d) KeyObject s = Inr None"
    and al: "Allocator s = True # Rest"
    and v: "Deref s ValueObject = Some ValueHeader"
    and rc: "ReferenceCount Header \<noteq> 0" "ReferenceCount Header < 0x0FFFFFFF"
      "ReferenceCount KeyHeader \<noteq> 0" "ReferenceCount KeyHeader < 0x0FFFFFFF"
      "ReferenceCount ValueHeader \<noteq> 0" "ReferenceCount ValueHeader < 0x0FFFFFFF"
  shows "\<exists>s1. ChalkDictSetElement Depth (Some d) KeyObject ValueObject s =
           Inr (0, Some (length (EntryList Dict)), s1)
      \<and> DictFields s1 (Some d) =
           Inr (Dict\<lparr>EntryList := EntryList Dict @ [\<lparr>Key = KeyObject, Value = ValueObject\<rparr>],
                     Generation := Generation Dict + 1,
                     Count := Count Dict + 1\<rparr>)"
proof -
  define s0 where "s0 = s\<lparr>Allocator := Rest\<rparr>"
  define Dict1 where
    "Dict1 = Dict\<lparr>EntryList := EntryList Dict @ [\<lparr>Key = KeyObject, Value = None\<rparr>],
                  Generation := Generation Dict + 1,
                  Count := Count Dict + 1\<rparr>"
  have al0: "ChalkAllocate s = (True, s0)"
    using al by (simp add: ChalkAllocate_def s0_def)
  have d0: "Deref s0 q = Deref s q" for q
    by (auto simp: Deref_def s0_def split: option.splits)
  have kd: "KeyObject \<noteq> Some d"
    using d k by (auto simp: HeaderType_def)
  have w: "x < 0x0FFFFFFF \<Longrightarrow> x \<noteq> 0 \<Longrightarrow>
      x < 0x10000000 \<and> x + 1 \<noteq> 0 \<and> x + 1 < 0x10000000" for x :: "32 word"
    by (simp add: word_less_nat_alt unat_word_ariths unat_eq_zero [symmetric])
  from ChalkObjectAddReference_returns [of s0 KeyObject KeyHeader] k(1) rc(3,4) w d0
  obtain s2 where s2: "ChalkObjectAddReference KeyObject s0 = Inr s2"
    and d2: "\<And>q. Deref s2 q =
      (if q = KeyObject then Some (KeyHeader\<lparr>ReferenceCount := ReferenceCount KeyHeader + 1\<rparr>)
       else Deref s q)"
    by auto
  have f2: "DictFields s2 (Some d) = Inr Dict"
    using d kd by (simp add: DictFields_def d2)
  define s3 where "s3 = StoreObject d (Header\<lparr>Payload := CHALK_DICT_OBJECT Dict1\<rparr>) s2"
  have "Deref s2 (Some d) = Some Header"
    using d(1) kd by (simp add: d2)
  then have dl: "d < length (Heap s2)"
    by (simp add: Deref_Some)
  have w3: "SetDictFields d Dict1 s2 = Inr s3"
    using d kd by (simp add: SetDictFields_def d2 s3_def)
  have d3: "Deref s3 q = (if q = Some d then Some (Header\<lparr>Payload := CHALK_DICT_OBJECT Dict1\<rparr>)
      else Deref s2 q)" for q
    using dl by (simp add: s3_def Deref_StoreObject)
  have new: "ChalkDictNewEntry d KeyObject s = Inr (Some (length (EntryList Dict)), s3)"
    using al0 s2 f2 w3 by (simp add: ChalkDictNewEntry_def Dict1_def)
  obtain ValueHeader3 where v3: "Deref s3 ValueObject = Some ValueHeader3"
    and r3: "ReferenceCount ValueHeader3 \<noteq> 0" "ReferenceCount ValueHeader3 < 0x10000000"
    using v k(1) d(1) rc w by (cases "ValueObject = Some d"; cases "ValueObject = KeyObject")
      (auto simp: d3 d2)
  from ChalkObjectAddReference_returns [OF v3 r3]
  obtain s4 where s4: "ChalkObjectAddReference ValueObject s3 = Inr s4"
    and d4: "\<And>q. Deref s4 q =
      (if q = ValueObject
       then Some (ValueHeader3\<lparr>ReferenceCount := ReferenceCount ValueHeader3 + 1\<rparr>)
       else Deref s3 q)"
    by auto
  obtain Header4 where h4: "Deref s4 (Some d) = Some Header4"
    and p4: "Payload Header4 = CHALK_DICT_OBJECT Dict1"
    using v3 by (cases "ValueObject = Some d") (auto simp: d4 d3)
  then have f4: "DictFields s4 (Some d) = Inr Dict1"
    by (simp add: DictFields_def)
  define Dict2 where
    "Dict2 = Dict1\<lparr>EntryList := (EntryList Dict1)
       [length (EntryList Dict) := (EntryList Dict1 ! length (EntryList Dict))
          \<lparr>Value := ValueObject\<rparr>]\<rparr>"
  define s5 where "s5 = StoreObject d (Header4\<lparr>Payload := CHALK_DICT_OBJECT Dict2\<rparr>) s4"
  have w5: "SetDictFields d Dict2 s4 = Inr s5"
    using h4 by (simp add: SetDictFields_def s5_def)
  have store: "ChalkDictStoreValue Depth d (length (EntryList Dict)) ValueObject s3 = Inr s5"
    using s4 f4 w5 by (simp add: ChalkDictStoreValue_def Dict2_def Dict1_def)
  from k(1) obtain b where "KeyObject = Some b"
    by (auto simp: Deref_Some)
  with d k l new store have "ChalkDictSetElement Depth (Some d) KeyObject ValueObject s =
      Inr (0, Some (length (EntryList Dict)), s5)"
    by (auto simp: ChalkDictSetElement_def HeaderType_def)
  moreover have "DictFields s5 (Some d) = Inr Dict2"
    using w5 by (rule SetDictFields_Inr)
  moreover have "Dict2 = Dict\<lparr>EntryList := EntryList Dict @ [\<lparr>Key = KeyObject, Value = ValueObject\<rparr>],
                     Generation := Generation Dict + 1,
                     Count := Count Dict + 1\<rparr>"
    by (simp add: Dict2_def Dict1_def)
  ultimately show ?thesis
    by simp
qed

subsection \<open>Looking up a key\<close>

text \<open>
  \<open>FindEntry\<close> is a linear scan: it returns the first entry whose key compares equal,
  and no entry exactly when every key compares different.
\<close>

lemma FindEntry_None:
  "FindEntry Compare Entries Position = Inr None \<longleftrightarrow>
     (\<forall>Entry \<in> set Entries. \<exists>Result. Compare (Key Entry) = Inr Result \<and> Result \<noteq> 0)"
  by (induction Entries arbitrary: Position) (auto split: sum.splits)

lemma FindEntry_Some:
  "FindEntry Compare Entries Position = Inr (Some n) \<longleftrightarrow>
     (\<exists>i < length Entries. n = Position + i \<and> Compare (Key (Entries ! i)) = Inr 0
        \<and> (\<forall>j < i. \<exists>Result. Compare (Key (Entries ! j)) = Inr Result \<and> Result \<noteq> 0))"
proof (induction Entries arbitrary: Position)
  case Nil
  show ?case
    by simp
next
  case (Cons Entry Entries)
  show ?case
  proof (cases "Compare (Key Entry)")
    case (Inl e)
    then show ?thesis
      by (auto simp: less_Suc_eq_0_disj)
  next
    case (Inr Result)
    show ?thesis
    proof (cases "Result = 0")
      case True
      with Inr show ?thesis
        by (auto simp: less_Suc_eq_0_disj)
    next
      case False
      with Inr have "FindEntry Compare (Entry # Entries) Position = Inr (Some n) \<longleftrightarrow>
          FindEntry Compare Entries (Suc Position) = Inr (Some n)"
        by simp
      also have "\<dots> \<longleftrightarrow>
          (\<exists>i < length Entries. n = Suc Position + i \<and> Compare (Key (Entries ! i)) = Inr 0
            \<and> (\<forall>j < i. \<exists>Result. Compare (Key (Entries ! j)) = Inr Result \<and> Result \<noteq> 0))"
        by (rule Cons.IH)
      also have "\<dots> \<longleftrightarrow>
          (\<exists>i < length (Entry # Entries). n = Position + i
            \<and> Compare (Key ((Entry # Entries) ! i)) = Inr 0
            \<and> (\<forall>j < i. \<exists>Result. Compare (Key ((Entry # Entries) ! j)) = Inr Result
                  \<and> Result \<noteq> 0))"
        using Inr False by (simp add: Ex_less_Suc2 All_less_Suc2)
      finally show ?thesis .
    qed
  qed
qed

text \<open>
  For a dictionary whose keys, like the key looked up, stand for values (integers,
  strings without a zero byte), the lookup finds the first entry whose key stands for
  the value of the key looked up, and none when no key of the dictionary does.
\<close>

lemma ChalkDictLookup_values:
  assumes d: "Deref s DictObject = Some Header" "Payload Header = CHALK_DICT_OBJECT Dict"
    and e: "\<forall>Entry \<in> set (EntryList Dict). ValueOf Depth s (Key Entry) \<noteq> None"
    and k: "ValueOf Depth s KeyObject = Some KeyValue"
  shows "ChalkDictLookup Depth DictObject KeyObject s = Inr None \<longleftrightarrow>
           (\<forall>Entry \<in> set (EntryList Dict). ValueOf Depth s (Key Entry) \<noteq> Some KeyValue)"
    and "ChalkDictLookup Depth DictObject KeyObject s = Inr (Some n) \<longleftrightarrow>
           n < length (EntryList Dict)
           \<and> ValueOf Depth s (Key (EntryList Dict ! n)) = Some KeyValue
           \<and> (\<forall>j < n. ValueOf Depth s (Key (EntryList Dict ! j)) \<noteq> Some KeyValue)"
proof -
  let ?Compare = "\<lambda>EntryKey. ChalkCompareObjects Depth s EntryKey KeyObject"
  have c: "?Compare (Key Entry) = Inr Result \<longleftrightarrow>
      (\<exists>v. ValueOf Depth s (Key Entry) = Some v \<and> Result = SpecCompare v KeyValue)"
    if "Entry \<in> set (EntryList Dict)" for Entry Result
    using e that ChalkCompareObjects_SpecCompare [OF _ k, of "Key Entry"] by auto
  have z: "?Compare (Key Entry) = Inr 0 \<longleftrightarrow> ValueOf Depth s (Key Entry) = Some KeyValue"
    if "Entry \<in> set (EntryList Dict)" for Entry
    using c [OF that] by (auto simp: SpecCompare_equal)
  have nz: "(\<exists>Result. ?Compare (Key Entry) = Inr Result \<and> Result \<noteq> 0) \<longleftrightarrow>
      ValueOf Depth s (Key Entry) \<noteq> Some KeyValue"
    if "Entry \<in> set (EntryList Dict)" for Entry
    using c [OF that] e that by (auto simp: SpecCompare_equal)
  have l: "ChalkDictLookup Depth DictObject KeyObject s = FindEntry ?Compare (EntryList Dict) 0"
    using d by (simp add: ChalkDictLookup_def)
  show "ChalkDictLookup Depth DictObject KeyObject s = Inr None \<longleftrightarrow>
           (\<forall>Entry \<in> set (EntryList Dict). ValueOf Depth s (Key Entry) \<noteq> Some KeyValue)"
    unfolding l FindEntry_None using nz by blast
  have "ChalkDictLookup Depth DictObject KeyObject s = Inr (Some n) \<longleftrightarrow>
      (n < length (EntryList Dict) \<and> ?Compare (Key (EntryList Dict ! n)) = Inr 0
        \<and> (\<forall>j < n. \<exists>Result. ?Compare (Key (EntryList Dict ! j)) = Inr Result \<and> Result \<noteq> 0))"
    unfolding l FindEntry_Some by auto
  also have "\<dots> \<longleftrightarrow>
      (n < length (EntryList Dict)
        \<and> ValueOf Depth s (Key (EntryList Dict ! n)) = Some KeyValue
        \<and> (\<forall>j < n. ValueOf Depth s (Key (EntryList Dict ! j)) \<noteq> Some KeyValue))"
    using z nz by (auto simp: nth_mem)
  finally show "ChalkDictLookup Depth DictObject KeyObject s = Inr (Some n) \<longleftrightarrow>
           n < length (EntryList Dict)
           \<and> ValueOf Depth s (Key (EntryList Dict ! n)) = Some KeyValue
           \<and> (\<forall>j < n. ValueOf Depth s (Key (EntryList Dict ! j)) \<noteq> Some KeyValue)" .
qed

text \<open>
  So for such a dictionary and such a key, the built-in get function returns the null
  object, with a reference added, when no key of the dictionary stands for the value
  of the key.
\<close>

lemma ChalkFunctionGet_missing_key:
  assumes d: "Deref s DictObject = Some Header" "Payload Header = CHALK_DICT_OBJECT Dict"
    and e: "\<forall>Entry \<in> set (EntryList Dict). ValueOf Depth s (Key Entry) \<noteq> None"
    and k: "ValueOf Depth s KeyObject = Some KeyValue"
    and m: "\<forall>Entry \<in> set (EntryList Dict). ValueOf Depth s (Key Entry) \<noteq> Some KeyValue"
    and n: "Deref s (Some ChalkNull) = Some NullHeader"
      "ReferenceCount NullHeader \<noteq> 0" "ReferenceCount NullHeader < 0x10000000"
  shows "ChalkFunctionGet Depth DictObject KeyObject ReturnValue s =
           Inr (0, Some ChalkNull,
                StoreObject ChalkNull
                  (NullHeader\<lparr>ReferenceCount := ReferenceCount NullHeader + 1\<rparr>) s)"
proof -
  from k have "KeyObject \<noteq> None"
    by (cases Depth; cases KeyObject) auto
  moreover have "ChalkDictLookup Depth DictObject KeyObject s = Inr None"
    using ChalkDictLookup_values(1) [OF d e k] m by simp
  moreover have "HeaderType Header = ChalkObjectDict"
    using d(2) by (simp add: HeaderType_def)
  ultimately show ?thesis
    using ChalkFunctionGet_status [OF d(1) _ n, of KeyObject Depth ReturnValue] by simp
qed

text \<open>
  C10. The built-in get function is to return the null object for every key that a
  dictionary does not contain. The lookup compares string keys with \<open>strcmp\<close>, which
  stops at the first zero byte. In a dictionary made by \<open>ChalkCreateDict\<close>, whose one
  entry takes the string of the three bytes \<open>a\<close>, zero, \<open>b\<close> to the integer 1, the
  string of the three bytes \<open>a\<close>, zero, \<open>c\<close> is not a key; the lookup of it finds
  the entry, and get returns 0 with the integer 1, not with the null object.
\<close>

theorem ChalkFunctionGet_embedded_zero_key:
  "(case ChalkCreateDict 20 None (InitialState (replicate 7 True)) of
      Inl e \<Rightarrow> False
    | Inr (Dict, s1) \<Rightarrow>
    (case ChalkCreateString (Some [0x61, 0, 0x62]) 3 s1 of
      Inl e \<Rightarrow> False
    | Inr (Key1, s2) \<Rightarrow>
    (case ChalkCreateInteger 1 s2 of
      (One, s3) \<Rightarrow>
    (case ChalkDictSetElement 20 Dict Key1 One s3 of
      Inl e \<Rightarrow> False
    | Inr (Status, LValue, s4) \<Rightarrow>
    (case ChalkCreateString (Some [0x61, 0, 0x63]) 3 s4 of
      Inl e \<Rightarrow> False
    | Inr (Key2, s5) \<Rightarrow>
        Status = 0
        \<and> map_option Payload (Deref s5 Dict) =
            Some (CHALK_DICT_OBJECT
              \<lparr>EntryList = [\<lparr>Key = Key1, Value = One\<rparr>], Count = 1, Generation = 1\<rparr>)
        \<and> map_option Payload (Deref s5 Key1) = Some (CHALK_STRING [0x61, 0, 0x62, 0] 3)
        \<and> map_option Payload (Deref s5 Key2) = Some (CHALK_STRING [0x61, 0, 0x63, 0] 3)
        \<and> map_option Payload (Deref s5 One) = Some (CHALK_INT 1)
        \<and> ChalkDictLookup 20 Dict Key2 s5 = Inr (Some 0)
        \<and> (case ChalkFunctionGet 20 Dict Key2 None s5 of
              Inl e \<Rightarrow> False
            | Inr (GetStatus, ReturnValue, s6) \<Rightarrow>
                GetStatus = 0 \<and> ReturnValue = One \<and> ReturnValue \<noteq> Some ChalkNull
                \<and> map_option Payload (Deref s6 ReturnValue) = Some (CHALK_INT 1)))))))"
  by code_simp

end
